theory Spec2Isabelle
  imports Main "HOL-Library.AList" "HOL-Library.Char_ord" "HOL-Library.List_Lexorder"
begin

section \<open>Data model\<close>

text \<open>
  JSON values as Python's \<^verbatim>\<open>json\<close> module hands them to the program: \<^verbatim>\<open>None\<close>,
  booleans, integers, strings, lists and dicts. A dict is an association list in
  insertion order; assignment to a key is \<^const>\<open>AList.update\<close> (an existing key keeps
  its place, a new key goes to the end), lookup is \<^const>\<open>map_of\<close>. Floating-point
  numbers are left out of the model.
\<close>

datatype json =
    JNull
  | JBool bool
  | JNum int
  | JStr string
  | JList "json list"
  | JDict "(string \<times> json) list"

type_synonym dict = "(string \<times> json) list"

text \<open>
  The keys of a Python dict. A key is found by hash and equality, under which \<^verbatim>\<open>True\<close>
  is the integer 1 and \<^verbatim>\<open>False\<close> the integer 0: a key is \<^verbatim>\<open>None\<close>, an integer or a
  string. Lists and dicts are not hashable.
\<close>

datatype key =
    KNone
  | KInt int
  | KStr string

text \<open>
  The accumulator \<^verbatim>\<open>cards_db\<close>: entity identifier to flattened record. The code puts
  whatever \<^verbatim>\<open>card["id"]\<close> holds there as the key, so an entry is the key, the key
  object that the dict keeps (the one of the first insertion) and the record. The labels
  of a record are the entry under the key \<^verbatim>\<open>tags\<close>.
\<close>

type_synonym cards = "(key \<times> json \<times> dict) list"

text \<open>
  The exceptions the engine can meet. \<^verbatim>\<open>KeyboardInterrupt\<close> derives from
  \<^verbatim>\<open>BaseException\<close>, all the others from \<^verbatim>\<open>Exception\<close>, which is what
  \<^verbatim>\<open>except Exception\<close> catches.
\<close>

datatype exn =
    HTTPError nat
  | ConnectionError
  | JSONDecodeError
  | KeyError string
  | TypeError
  | AttributeError
  | RecursionError
  | OSError
  | KeyboardInterrupt

fun is_Exception :: "exn \<Rightarrow> bool" where
  "is_Exception KeyboardInterrupt = False"
| "is_Exception _ = True"

section \<open>Card data helpers\<close>

text \<open>Decimal digits of a natural number, for the f-string \<^verbatim>\<open>f"face_{i}_name"\<close>.\<close>

fun string_of_nat :: "nat \<Rightarrow> string" where
  "string_of_nat n =
     (if n < 10 then [char_of (48 + n)]
      else string_of_nat (n div 10) @ [char_of (48 + n mod 10)])"

declare string_of_nat.simps [simp del]

text \<open>\<^verbatim>\<open>face.get(key, "")\<close>.\<close>

definition get_or_empty :: "dict \<Rightarrow> string \<Rightarrow> json" where
  "get_or_empty face key = (case map_of face key of None \<Rightarrow> JStr [] | Some v \<Rightarrow> v)"

text \<open>
  What \<^verbatim>\<open>enumerate(card["card_faces"])\<close> iterates over: the elements of a list, the
  keys of a dict, the characters of a string; any other value is not iterable.
\<close>

fun iterate :: "json \<Rightarrow> exn + json list" where
  "iterate (JList xs) = Inr xs"
| "iterate (JDict d) = Inr (map (\<lambda>kv. JStr (fst kv)) d)"
| "iterate (JStr s) = Inr (map (\<lambda>c. JStr [c]) s)"
| "iterate _ = Inl TypeError"

text \<open>
  The loop over the faces, lines 138 to 142: only a dict has \<^verbatim>\<open>get\<close>, so any other
  face raises \<^verbatim>\<open>AttributeError\<close>.
\<close>

fun flatten_faces :: "nat \<Rightarrow> json list \<Rightarrow> dict \<Rightarrow> exn + dict" where
  "flatten_faces i [] flattened = Inr flattened"
| "flatten_faces i (JDict face # rest) flattened =
     flatten_faces (Suc i) rest
       (AList.update (''face_'' @ string_of_nat i @ ''_oracle_text'') (get_or_empty face ''oracle_text'')
       (AList.update (''face_'' @ string_of_nat i @ ''_type_line'') (get_or_empty face ''type_line'')
       (AList.update (''face_'' @ string_of_nat i @ ''_mana_cost'') (get_or_empty face ''mana_cost'')
       (AList.update (''face_'' @ string_of_nat i @ ''_name'') (get_or_empty face ''name'')
          flattened))))"
| "flatten_faces i (_ # rest) flattened = Inl AttributeError"

fun is_list_or_dict :: "json \<Rightarrow> bool" where
  "is_list_or_dict (JList _) = True"
| "is_list_or_dict (JDict _) = True"
| "is_list_or_dict _ = False"

text \<open>
  The loop over \<^verbatim>\<open>card.items()\<close>, lines 144 to 150. \<open>dumps\<close> stands for the
  standard library's \<^verbatim>\<open>json.dumps\<close>.
\<close>

fun flatten_items :: "(json \<Rightarrow> string) \<Rightarrow> dict \<Rightarrow> dict \<Rightarrow> dict" where
  "flatten_items dumps [] flattened = flattened"
| "flatten_items dumps ((key, v) # rest) flattened =
     (if key = ''card_faces'' then flatten_items dumps rest flattened
      else if is_list_or_dict v
        then flatten_items dumps rest (AList.update key (JStr (dumps v)) flattened)
        else flatten_items dumps rest (AList.update key v flattened))"

definition flatten_card_data :: "(json \<Rightarrow> string) \<Rightarrow> dict \<Rightarrow> exn + dict" where
  "flatten_card_data dumps payload =
     (case map_of payload ''card_faces'' of
        None \<Rightarrow> Inr (flatten_items dumps payload [])
      | Some faces \<Rightarrow>
          (case iterate faces of
             Inl e \<Rightarrow> Inl e
           | Inr fs \<Rightarrow>
               (case flatten_faces 0 fs [] of
                  Inl e \<Rightarrow> Inl e
                | Inr flattened \<Rightarrow> Inr (flatten_items dumps payload flattened))))"

text \<open>\<^verbatim>\<open>card["id"]\<close>: a missing key raises \<^verbatim>\<open>KeyError\<close>.\<close>

definition card_id :: "dict \<Rightarrow> exn + json" where
  "card_id payload =
     (case map_of payload ''id'' of
        None \<Rightarrow> Inl (KeyError ''id'')
      | Some v \<Rightarrow> Inr v)"

text \<open>
  Hashing a value for a dict lookup, as in \<^verbatim>\<open>card_id not in self.cards_db\<close>: a list or
  a dict raises \<^verbatim>\<open>TypeError\<close>.
\<close>

fun hash_key :: "json \<Rightarrow> exn + key" where
  "hash_key JNull = Inr KNone"
| "hash_key (JBool b) = Inr (KInt (if b then 1 else 0))"
| "hash_key (JNum n) = Inr (KInt n)"
| "hash_key (JStr s) = Inr (KStr s)"
| "hash_key (JList xs) = Inl TypeError"
| "hash_key (JDict d) = Inl TypeError"

text \<open>The key under which a payload is looked up: \<^verbatim>\<open>card["id"]\<close>, hashed.\<close>

definition card_key :: "dict \<Rightarrow> exn + key" where
  "card_key payload = (case card_id payload of Inl e \<Rightarrow> Inl e | Inr v \<Rightarrow> hash_key v)"

text \<open>Python's \<^verbatim>\<open>needle in haystack\<close> on two strings: a contiguous substring.\<close>

fun starts_with :: "string \<Rightarrow> string \<Rightarrow> bool" where
  "starts_with hay [] = True"
| "starts_with [] (n # ns) = False"
| "starts_with (h # hs) (n # ns) = (h = n \<and> starts_with hs ns)"

fun substring :: "string \<Rightarrow> string \<Rightarrow> bool" where
  "substring needle [] = (needle = [])"
| "substring needle (h # hs) = (starts_with (h # hs) needle \<or> substring needle hs)"

text \<open>
  Lines 162 to 164 on an existing record: \<^verbatim>\<open>setdefault("tags", [])\<close>, the test
  \<^verbatim>\<open>tag not in tags\<close> and \<^verbatim>\<open>tags.append(tag)\<close>. The value under \<^verbatim>\<open>tags\<close> is of
  type \<^verbatim>\<open>Any\<close>: on a list the test is membership, on a string it is the substring
  test, on a dict it looks at the keys, and only a list has \<^verbatim>\<open>append\<close>.
\<close>

definition append_tag :: "string \<Rightarrow> dict \<Rightarrow> exn + dict" where
  "append_tag tag entry =
     (case map_of entry ''tags'' of
        None \<Rightarrow> Inr (AList.update ''tags'' (JList [JStr tag]) entry)
      | Some (JList tags) \<Rightarrow>
          (if JStr tag \<notin> set tags
           then Inr (AList.update ''tags'' (JList (tags @ [JStr tag])) entry)
           else Inr entry)
      | Some (JStr s) \<Rightarrow> (if \<not> substring tag s then Inl AttributeError else Inr entry)
      | Some (JDict d) \<Rightarrow> (if tag \<notin> fst ` set d then Inl AttributeError else Inr entry)
      | Some _ \<Rightarrow> Inl TypeError)"

text \<open>
  \<^verbatim>\<open>_add_or_update_card\<close>. Every exception is raised before the accumulator is
  touched, so the result is either the exception or the new accumulator.
\<close>

definition add_or_update_card :: "(json \<Rightarrow> string) \<Rightarrow> dict \<Rightarrow> string \<Rightarrow> cards \<Rightarrow> exn + cards" where
  "add_or_update_card dumps payload tag cards_db =
     (case card_id payload of
        Inl e \<Rightarrow> Inl e
      | Inr cid \<Rightarrow>
          (case hash_key cid of
             Inl e \<Rightarrow> Inl e
           | Inr k \<Rightarrow>
               (case map_of cards_db k of
                  None \<Rightarrow>
                    (case flatten_card_data dumps payload of
                       Inl e \<Rightarrow> Inl e
                     | Inr flattened \<Rightarrow>
                         Inr (AList.update k
                                (cid, AList.update ''tags'' (JList [JStr tag]) flattened) cards_db))
                | Some (kept, entry) \<Rightarrow>
                    (case append_tag tag entry of
                       Inl e \<Rightarrow> Inl e
                     | Inr entry' \<Rightarrow> Inr (AList.update k (kept, entry') cards_db)))))"

section \<open>The accumulator in a JSON file\<close>

text \<open>Decimal digits of an integer, as \<^verbatim>\<open>json.dump\<close> writes an integer key.\<close>

definition string_of_int :: "int \<Rightarrow> string" where
  "string_of_int i = (if i < 0 then CHR ''-'' # string_of_nat (nat (- i)) else string_of_nat (nat i))"

text \<open>
  The keys of a JSON object are strings: \<^verbatim>\<open>json.dump\<close> writes a string key as it is,
  an integer in decimal, \<^verbatim>\<open>True\<close>, \<^verbatim>\<open>False\<close> and \<^verbatim>\<open>None\<close> as \<^verbatim>\<open>true\<close>,
  \<^verbatim>\<open>false\<close> and \<^verbatim>\<open>null\<close>.
\<close>

fun key_text :: "json \<Rightarrow> string" where
  "key_text (JStr s) = s"
| "key_text (JNum n) = string_of_int n"
| "key_text (JBool b) = (if b then ''true'' else ''false'')"
| "key_text JNull = ''null''"
| "key_text _ = []"

text \<open>
  What \<^verbatim>\<open>json.load\<close> makes of the accumulator that \<^verbatim>\<open>json.dump\<close> wrote: the entries in
  order, each under its key as a string; when two keys become the same string the first
  keeps its place and the last gives the record. The records themselves come back as they
  were written.
\<close>

fun load_entries :: "cards \<Rightarrow> cards \<Rightarrow> cards" where
  "load_entries [] loaded = loaded"
| "load_entries ((k, kept, entry) # rest) loaded =
     load_entries rest (AList.update (KStr (key_text kept)) (JStr (key_text kept), entry) loaded)"

definition dump_and_load :: "cards \<Rightarrow> cards" where
  "dump_and_load db = load_entries db []"

section \<open>The upstream API and the checkpoint file\<close>

text \<open>
  One page of the search endpoint, typed by the API contract: \<^verbatim>\<open>data\<close> is an array of
  card objects when the key is present, \<^verbatim>\<open>has_more\<close> is the truth value of
  \<^verbatim>\<open>data.get("has_more")\<close>, \<^verbatim>\<open>next_page\<close> is the continuation URL when present.
\<close>

record page =
  data :: "dict list option"
  has_more :: bool
  next_page :: "string option"

text \<open>
  What one call of \<^verbatim>\<open>requests.get\<close> does: it returns a response with a status code
  and a body (\<open>None\<close> when the body is not JSON, so that \<^verbatim>\<open>response.json()\<close> raises),
  it raises a connection error, or the user's interrupt arrives while the engine waits.
\<close>

datatype outcome =
    Response nat "page option"
  | Failed
  | Interrupted

text \<open>
  What one call of \<^verbatim>\<open>_save_checkpoint\<close> meets: the file is written; or \<^verbatim>\<open>mkdir\<close> or
  \<^verbatim>\<open>open\<close> raises, and the file is as it was; or \<^verbatim>\<open>json.dump\<close> raises after
  \<^verbatim>\<open>open\<close> has truncated the file, and what is left does not parse.
\<close>

datatype write_result =
    Write_ok
  | Open_failed
  | Dump_failed

text \<open>
  The collaborators outside the repository. \<open>upstream n url\<close> is the outcome of the
  request for \<open>url\<close> issued when \<^verbatim>\<open>request_count\<close> was \<open>n\<close>; \<open>retry_depth\<close> is the
  number of nested retries of \<^verbatim>\<open>_make_request\<close> that fit under the interpreter's
  recursion limit; \<open>disk_write k\<close> is what the \<open>k\<close>-th attempt to write the checkpoint
  file meets; \<open>export_ok\<close> tells whether the CSV export succeeds.
\<close>

record env =
  json_dumps :: "json \<Rightarrow> string"
  upstream :: "nat \<Rightarrow> string \<Rightarrow> outcome"
  retry_depth :: nat
  disk_write :: "nat \<Rightarrow> write_result"
  export_ok :: bool

text \<open>
  The checkpoint file, as \<^verbatim>\<open>json.load\<close> reads it back (the timestamp is never used).
  The order of \<^verbatim>\<open>list(self.processed_tags)\<close> is not specified and is lost again by
  \<^verbatim>\<open>set(...)\<close>, so the field is the set. A key may be missing from a file, in which
  case \<^verbatim>\<open>checkpoint.get\<close> gives the default.
\<close>

record checkpoint =
  saved_tags :: "string set option"
  saved_cards :: "cards option"

datatype ckfile =
    Missing
  | Unreadable
  | Written checkpoint

text \<open>
  The state of a run: the fields of \<^verbatim>\<open>MTGDatabaseBuilder\<close> that change, the content
  of the file at \<^verbatim>\<open>checkpoint_file\<close>, and the record of every attempt to save (the
  snapshot and whether it was written), oldest first.
\<close>

record engine =
  cards_db :: cards
  processed_tags :: "string set"
  request_count :: nat
  checkpoint_file :: ckfile
  save_log :: "(checkpoint \<times> bool) list"

definition BASE_URL :: string where
  "BASE_URL = ''https://api.scryfall.com''"

definition CHECKPOINT_INTERVAL :: nat where
  "CHECKPOINT_INTERVAL = 500"

section \<open>Checkpoint persistence\<close>

definition load_checkpoint :: "engine \<Rightarrow> engine" where
  "load_checkpoint s =
     (case checkpoint_file s of
        Missing \<Rightarrow> s
      | Unreadable \<Rightarrow> s
      | Written ck \<Rightarrow>
          s\<lparr>processed_tags := (case saved_tags ck of None \<Rightarrow> {} | Some tags \<Rightarrow> tags),
            cards_db := (case saved_cards ck of None \<Rightarrow> [] | Some db \<Rightarrow> db)\<rparr>)"

text \<open>
  \<^verbatim>\<open>_save_checkpoint\<close>. The file is overwritten in place, so a failure after
  \<^verbatim>\<open>open\<close> leaves a file that \<^verbatim>\<open>_load_checkpoint\<close> cannot read.
\<close>

definition save_checkpoint :: "env \<Rightarrow> engine \<Rightarrow> exn option \<times> engine" where
  "save_checkpoint env s =
     (let ck = \<lparr>saved_tags = Some (processed_tags s),
                saved_cards = Some (dump_and_load (cards_db s))\<rparr>
      in case disk_write env (length (save_log s)) of
           Write_ok \<Rightarrow>
             (None, s\<lparr>checkpoint_file := Written ck, save_log := save_log s @ [(ck, True)]\<rparr>)
         | Open_failed \<Rightarrow>
             (Some OSError, s\<lparr>save_log := save_log s @ [(ck, False)]\<rparr>)
         | Dump_failed \<Rightarrow>
             (Some OSError, s\<lparr>checkpoint_file := Unreadable, save_log := save_log s @ [(ck, False)]\<rparr>))"

section \<open>Scryfall API interaction\<close>

text \<open>
  \<^verbatim>\<open>_make_request\<close>, on the request counter, with \<open>depth\<close> nested retries still
  allowed: a 429 calls \<^verbatim>\<open>_make_request\<close> again from inside itself, and when the
  recursion limit is reached that call raises \<^verbatim>\<open>RecursionError\<close>.
  \<^verbatim>\<open>raise_for_status\<close> raises on the codes 400 to 599.
\<close>

fun retry_request :: "env \<Rightarrow> string \<Rightarrow> nat \<Rightarrow> nat \<Rightarrow> (exn + page) \<times> nat" where
  "retry_request env url depth n =
     (case upstream env n url of
        Failed \<Rightarrow> (Inl ConnectionError, Suc n)
      | Interrupted \<Rightarrow> (Inl KeyboardInterrupt, Suc n)
      | Response status body \<Rightarrow>
          if status = 429
          then (case depth of
                  0 \<Rightarrow> (Inl RecursionError, Suc n)
                | Suc d \<Rightarrow> retry_request env url d (Suc n))
          else if 400 \<le> status \<and> status < 600 then (Inl (HTTPError status), Suc n)
          else (case body of
                  None \<Rightarrow> (Inl JSONDecodeError, Suc n)
                | Some pg \<Rightarrow> (Inr pg, Suc n)))"

declare retry_request.simps [simp del]

definition make_request :: "env \<Rightarrow> string \<Rightarrow> nat \<Rightarrow> (exn + page) \<times> nat" where
  "make_request env url n = retry_request env url (retry_depth env) n"

text \<open>
  The \<^verbatim>\<open>while url:\<close> loop of \<^verbatim>\<open>_search_tag\<close>: \<open>None\<close> and the empty string are
  false. A 404 leaves the loop, any other exception goes on to the caller. The loop is
  partial: it has no value when the upstream sends pages with \<^verbatim>\<open>has_more\<close> for ever.
\<close>

partial_function (option) search_loop ::
    "env \<Rightarrow> string option \<Rightarrow> dict list \<Rightarrow> nat \<Rightarrow> ((exn + dict list) \<times> nat) option" where
  "search_loop env url all_cards n =
     (case url of
        None \<Rightarrow> Some (Inr all_cards, n)
      | Some u \<Rightarrow>
          if u = [] then Some (Inr all_cards, n)
          else
            (case make_request env u n of
               (Inl e, n') \<Rightarrow>
                 if e = HTTPError 404 then Some (Inr all_cards, n') else Some (Inl e, n')
             | (Inr pg, n') \<Rightarrow>
                 (case data pg of
                    None \<Rightarrow> Some (Inr all_cards, n')
                  | Some cs \<Rightarrow>
                      search_loop env (if has_more pg then next_page pg else None)
                        (all_cards @ cs) n')))"

text \<open>The first URL, \<^verbatim>\<open>f"{self.BASE_URL}/cards/search?q=otag:{tag}"\<close>.\<close>

definition search_url :: "string \<Rightarrow> string" where
  "search_url tag = BASE_URL @ ''/cards/search?q=otag:'' @ tag"

definition search_tag :: "env \<Rightarrow> string \<Rightarrow> nat \<Rightarrow> ((exn + dict list) \<times> nat) option" where
  "search_tag env tag n = search_loop env (Some (search_url tag)) [] n"

section \<open>Main pipeline\<close>

text \<open>
  The loop of lines 182 to 185 (the counter \<^verbatim>\<open>new_cards\<close> is only printed). An
  exception leaves the accumulator as the payloads before it made it.
\<close>

fun merge_cards :: "(json \<Rightarrow> string) \<Rightarrow> string \<Rightarrow> dict list \<Rightarrow> cards \<Rightarrow> exn option \<times> cards" where
  "merge_cards dumps tag [] db = (None, db)"
| "merge_cards dumps tag (payload # rest) db =
     (case card_key payload of
        Inl e \<Rightarrow> (Some e, db)
      | Inr k \<Rightarrow>
          (case add_or_update_card dumps payload tag db of
             Inl e \<Rightarrow> (Some e, db)
           | Inr db' \<Rightarrow> merge_cards dumps tag rest db'))"

text \<open>
  The handler \<^verbatim>\<open>except Exception\<close> of \<^verbatim>\<open>_process_tag\<close>: it returns 0, and lets a
  \<^verbatim>\<open>KeyboardInterrupt\<close> through.
\<close>

definition handle :: "exn \<Rightarrow> engine \<Rightarrow> ((exn + nat) \<times> engine) option" where
  "handle e s = (if is_Exception e then Some (Inr 0, s) else Some (Inl e, s))"

definition process_tag :: "env \<Rightarrow> string \<Rightarrow> engine \<Rightarrow> ((exn + nat) \<times> engine) option" where
  "process_tag env tag s =
     (if tag \<in> processed_tags s then Some (Inr 0, s)
      else
        (case search_tag env tag (request_count s) of
           None \<Rightarrow> None
         | Some (Inl e, n) \<Rightarrow> handle e (s\<lparr>request_count := n\<rparr>)
         | Some (Inr cs, n) \<Rightarrow>
             (case merge_cards (json_dumps env) tag cs (cards_db s) of
                (Some e, db) \<Rightarrow> handle e (s\<lparr>cards_db := db, request_count := n\<rparr>)
              | (None, db) \<Rightarrow>
                  (let s1 = s\<lparr>cards_db := db,
                              processed_tags := insert tag (processed_tags s),
                              request_count := n\<rparr>
                   in if card (processed_tags s1) mod CHECKPOINT_INTERVAL = 0
                      then (case save_checkpoint env s1 of
                              (Some e, s2) \<Rightarrow> handle e s2
                            | (None, s2) \<Rightarrow> Some (Inr (length cs), s2))
                      else Some (Inr (length cs), s1)))))"

text \<open>The \<^verbatim>\<open>for\<close> loop of \<^verbatim>\<open>build_database\<close>, lines 216 to 224.\<close>

fun run_tags :: "env \<Rightarrow> string list \<Rightarrow> engine \<Rightarrow> ((exn + unit) \<times> engine) option" where
  "run_tags env [] s = Some (Inr (), s)"
| "run_tags env (tag # rest) s =
     (if tag \<in> processed_tags s then run_tags env rest s
      else
        (case process_tag env tag s of
           None \<Rightarrow> None
         | Some (Inl e, s') \<Rightarrow> Some (Inl e, s')
         | Some (Inr _, s') \<Rightarrow> run_tags env rest s'))"

text \<open>
  \<^verbatim>\<open>build_database\<close>: the loop, the final save, the export. The export is the
  collaborator \<open>export_ok\<close>.
\<close>

definition build_database :: "env \<Rightarrow> string list \<Rightarrow> engine \<Rightarrow> ((exn + unit) \<times> engine) option" where
  "build_database env all_tags s =
     (case run_tags env all_tags s of
        None \<Rightarrow> None
      | Some (Inl e, s') \<Rightarrow> Some (Inl e, s')
      | Some (Inr _, s') \<Rightarrow>
          (case save_checkpoint env s' of
             (Some e, s'') \<Rightarrow> Some (Inl e, s'')
           | (None, s'') \<Rightarrow>
               if export_ok env then Some (Inr (), s'') else Some (Inl OSError, s'')))"

text \<open>
  The constructor: the tag groups in the order of their sorted keys, an empty
  accumulator, then the checkpoint. The file system is what the previous process left.
\<close>

definition flatten_tags :: "(string \<times> string list) list \<Rightarrow> string list" where
  "flatten_tags tags_by_letter = concat (map snd (sort_key fst tags_by_letter))"

definition new_builder :: "ckfile \<Rightarrow> (checkpoint \<times> bool) list \<Rightarrow> engine" where
  "new_builder file log =
     load_checkpoint
       \<lparr>cards_db = [], processed_tags = {}, request_count = 0,
        checkpoint_file = file, save_log = log\<rparr>"

text \<open>
  \<^verbatim>\<open>main\<close>, to the exit status of the process. The tags file is absent, or it does
  not parse, or it holds the groups.
\<close>

datatype tags_file =
    No_tags_file
  | Bad_tags_file
  | Tags_file "(string \<times> string list) list"

definition main :: "env \<Rightarrow> tags_file \<Rightarrow> ckfile \<Rightarrow> (checkpoint \<times> bool) list \<Rightarrow> (nat \<times> ckfile) option" where
  "main env tf file log =
     (case tf of
        No_tags_file \<Rightarrow> Some (1, file)
      | Bad_tags_file \<Rightarrow> Some (1, file)
      | Tags_file groups \<Rightarrow>
          (case build_database env (flatten_tags groups) (new_builder file log) of
             None \<Rightarrow> None
           | Some (Inl e, s) \<Rightarrow>
               if e = KeyboardInterrupt then Some (0, checkpoint_file s)
               else Some (1, checkpoint_file s)
           | Some (Inr _, s) \<Rightarrow> Some (0, checkpoint_file s)))"

section \<open>Sequences of merges\<close>





section \<open>Scripted upstream answers\<close>

text \<open>The outcome is a successful response (a 2xx status) carrying the page \<open>p\<close>.\<close>

fun is_success :: "outcome \<Rightarrow> page \<Rightarrow> bool" where
  "is_success (Response status (Some p')) p = (200 \<le> status \<and> status < 300 \<and> p' = p)"
| "is_success _ p = False"

text \<open>The outcome is a response with status 404.\<close>

fun is_404 :: "outcome \<Rightarrow> bool" where
  "is_404 (Response status body) = (status = 404)"
| "is_404 _ = False"

text \<open>
  From request number \<open>n\<close> on, the upstream answers the request for \<open>u\<close> and for each
  continuation URL with the successive pages of a non-empty list: every page has a
  \<^verbatim>\<open>data\<close> array, every page before the last has \<^verbatim>\<open>has_more\<close> true and a
  continuation URL, the last page has \<^verbatim>\<open>has_more\<close> false.
\<close>

fun paged :: "env \<Rightarrow> nat \<Rightarrow> string \<Rightarrow> page list \<Rightarrow> bool" where
  "paged env n u [] = False"
| "paged env n u [p] = (is_success (upstream env n u) p \<and> data p \<noteq> None \<and> \<not> has_more p)"
| "paged env n u (p # q # ps) =
     (is_success (upstream env n u) p \<and> data p \<noteq> None \<and> has_more p \<and>
      (case next_page p of
         None \<Rightarrow> False
       | Some u' \<Rightarrow> u' \<noteq> [] \<and> paged env (Suc n) u' (q # ps)))"

text \<open>
  The same, except that every page has \<^verbatim>\<open>has_more\<close> true and a continuation URL, and
  the request that follows the last page is answered with 404. With no page at all the
  first request is answered with 404.
\<close>

fun paged_then_404 :: "env \<Rightarrow> nat \<Rightarrow> string \<Rightarrow> page list \<Rightarrow> bool" where
  "paged_then_404 env n u [] = is_404 (upstream env n u)"
| "paged_then_404 env n u (p # ps) =
     (is_success (upstream env n u) p \<and> data p \<noteq> None \<and> has_more p \<and>
      (case next_page p of
         None \<Rightarrow> False
       | Some u' \<Rightarrow> u' \<noteq> [] \<and> paged_then_404 env (Suc n) u' ps))"

text \<open>The \<^verbatim>\<open>data\<close> arrays of a list of pages, one after the other.\<close>

fun all_data :: "page list \<Rightarrow> dict list" where
  "all_data [] = []"
| "all_data (p # ps) = (case data p of None \<Rightarrow> [] | Some cs \<Rightarrow> cs) @ all_data ps"

section \<open>Example runs\<close>

text \<open>A payload with an identifier and a name.\<close>

definition ex_card :: "string \<Rightarrow> string \<Rightarrow> dict" where
  "ex_card i nm = [(''id'', JStr i), (''name'', JStr nm)]"

text \<open>An upstream that answers the label \<^verbatim>\<open>removal\<close> with two pages.\<close>

definition two_pages :: env where
  "two_pages =
     \<lparr>json_dumps = (\<lambda>v. []),
      upstream = (\<lambda>n u.
        if u = search_url ''removal''
          then Response 200 (Some \<lparr>data = Some [ex_card ''2'' ''Y''], has_more = True, next_page = Some ''page2''\<rparr>)
        else if u = ''page2''
          then Response 200 (Some \<lparr>data = Some [ex_card ''3'' ''Z''], has_more = False, next_page = None\<rparr>)
        else Response 404 None),
      retry_depth = 983, disk_write = (\<lambda>k. Write_ok),
      export_ok = True\<rparr>"

text \<open>A builder that starts with no checkpoint file.\<close>

definition fresh :: engine where
  "fresh = \<lparr>cards_db = [], processed_tags = {}, request_count = 0, checkpoint_file = Missing, save_log = []\<rparr>"

text \<open>An upstream that answers every request with 404.\<close>

definition all_404 :: env where
  "all_404 = \<lparr>json_dumps = (\<lambda>v. []), upstream = (\<lambda>n u. Response 404 None),
      retry_depth = 983, disk_write = (\<lambda>k. Write_ok), export_ok = True\<rparr>"


text \<open>
  An upstream whose page holds a payload with an identifier followed by a payload
  without one.
\<close>

definition one_card_then_no_id :: env where
  "one_card_then_no_id =
     \<lparr>json_dumps = (\<lambda>v. []),
      upstream = (\<lambda>n u.
        Response 200 (Some \<lparr>data = Some [ex_card ''2'' ''Y'', [(''name'', JStr ''Z'')]],
                             has_more = False, next_page = None\<rparr>)),
      retry_depth = 983, disk_write = (\<lambda>k. Write_ok),
      export_ok = True\<rparr>"

text \<open>A builder after the label \<^verbatim>\<open>flying_benefit\<close> brought the entity 2.\<close>

definition after_flying :: engine where
  "after_flying =
     \<lparr>cards_db = [(KStr ''2'', JStr ''2'', [(''id'', JStr ''2''), (''name'', JStr ''Y''), (''tags'', JList [JStr ''flying_benefit''])])],
      processed_tags = {''flying_benefit''}, request_count = 1,
      checkpoint_file = Missing, save_log = []\<rparr>"

text \<open>An upstream that answers every request with 500.\<close>

definition server_error :: env where
  "server_error = \<lparr>json_dumps = (\<lambda>v. []), upstream = (\<lambda>n u. Response 500 None),
      retry_depth = 983, disk_write = (\<lambda>k. Write_ok), export_ok = True\<rparr>"

text \<open>
  An upstream that answers the label \<^verbatim>\<open>flying_benefit\<close> with one page; during any
  other request the user's interrupt arrives.
\<close>

definition interrupted_second :: env where
  "interrupted_second =
     \<lparr>json_dumps = (\<lambda>v. []),
      upstream = (\<lambda>n u.
        if u = search_url ''flying_benefit''
          then Response 200 (Some \<lparr>data = Some [ex_card ''1'' ''X''], has_more = False, next_page = None\<rparr>)
        else Interrupted),
      retry_depth = 983, disk_write = (\<lambda>k. Write_ok),
      export_ok = True\<rparr>"

text \<open>The 499 labels \<^verbatim>\<open>x\<close>, \<^verbatim>\<open>xx\<close>, \<^verbatim>\<open>xxx\<close> and so on.\<close>

definition many_tags :: "string set" where
  "many_tags = (\<lambda>n. replicate n CHR ''x'') ` {1..499}"

text \<open>A builder that has loaded a checkpoint with these 499 labels and no entity.\<close>

definition resumed_499 :: engine where
  "resumed_499 =
     \<lparr>cards_db = [], processed_tags = many_tags, request_count = 0,
      checkpoint_file = Written \<lparr>saved_tags = Some many_tags, saved_cards = Some []\<rparr>,
      save_log = []\<rparr>"

text \<open>
  An upstream that answers every request with 404, and a disk on which the first write
  of the checkpoint file fails and every later one succeeds.
\<close>

definition write_fails_once :: env where
  "write_fails_once = \<lparr>json_dumps = (\<lambda>v. []), upstream = (\<lambda>n u. Response 404 None),
      retry_depth = 983,
      disk_write = (\<lambda>k. if k = 0 then Open_failed else Write_ok), export_ok = True\<rparr>"

section \<open>The cadence of the periodic saves\<close>

text \<open>The processed labels recorded in one entry of the save log.\<close>

definition snapshot_tags :: "checkpoint \<times> bool \<Rightarrow> string set" where
  "snapshot_tags entry = (case saved_tags (fst entry) of None \<Rightarrow> {} | Some tags \<Rightarrow> tags)"

text \<open>
  Each snapshot of the list contains the one before it and holds exactly
  \<^verbatim>\<open>CHECKPOINT_INTERVAL\<close> labels more: that many labels were newly processed between
  the two saves.
\<close>

fun evenly_spaced :: "string set list \<Rightarrow> bool" where
  "evenly_spaced (a # b # rest) =
     (a \<subseteq> b \<and> card (b - a) = CHECKPOINT_INTERVAL \<and> evenly_spaced (b # rest))"
| "evenly_spaced _ = True"

text \<open>The size of the processed set at each save of the log.\<close>

definition save_sizes :: "engine \<Rightarrow> nat list" where
  "save_sizes s = map (\<lambda>entry. card (snapshot_tags entry)) (save_log s)"

text \<open>
  The sizes of the processed set at which the first \<open>k\<close> periodic saves of a run are due
  when the run starts with \<open>n\<close> processed labels: the multiples of the interval above
  \<open>n\<close>, in order.
\<close>

definition due_sizes :: "nat \<Rightarrow> nat \<Rightarrow> nat list" where
  "due_sizes n k =
     map (\<lambda>i. (n div CHECKPOINT_INTERVAL + Suc i) * CHECKPOINT_INTERVAL) [0..<k]"

text \<open>Every snapshot of the log holds the labels of \<open>s\<close> and only labels of \<open>s'\<close>.\<close>

definition saves_between :: "engine \<Rightarrow> engine \<Rightarrow> bool" where
  "saves_between s s' =
     list_all (\<lambda>entry. processed_tags s \<subseteq> snapshot_tags entry \<and>
                       snapshot_tags entry \<subseteq> processed_tags s') (save_log s')"

text \<open>The invariant of the run loop on the save log, for a run that started in \<open>s0\<close>.\<close>

definition on_schedule :: "engine \<Rightarrow> engine \<Rightarrow> bool" where
  "on_schedule s0 s =
     (finite (processed_tags s) \<and> processed_tags s0 \<subseteq> processed_tags s \<and>
      save_sizes s = due_sizes (card (processed_tags s0)) (length (save_log s)) \<and>
      evenly_spaced (map snapshot_tags (save_log s)) \<and>
      saves_between s0 s \<and>
      (card (processed_tags s0) div CHECKPOINT_INTERVAL + length (save_log s))
          * CHECKPOINT_INTERVAL \<le> card (processed_tags s) \<and>
      card (processed_tags s)
        < (card (processed_tags s0) div CHECKPOINT_INTERVAL + Suc (length (save_log s)))
            * CHECKPOINT_INTERVAL)"

text \<open>The 500 labels \<^verbatim>\<open>y\<close>, \<^verbatim>\<open>yy\<close>, \<^verbatim>\<open>yyy\<close> and so on.\<close>

definition more_tags :: "string list" where
  "more_tags = map (\<lambda>n. replicate n CHR ''y'') [1..<501]"

section \<open>Resuming from a checkpoint\<close>

text \<open>
  The upstream is deterministic: the answer to a URL (a label and a page) does not
  depend on when the request is made.
\<close>

definition deterministic :: "env \<Rightarrow> bool" where
  "deterministic env = (\<forall>n m u. upstream env n u = upstream env m u)"

text \<open>The payload appears in the \<^verbatim>\<open>data\<close> array of some page the upstream can send.\<close>

definition served :: "env \<Rightarrow> dict \<Rightarrow> bool" where
  "served env c = (\<exists>n u status pg cs. upstream env n u = Response status (Some pg) \<and>
                     data pg = Some cs \<and> c \<in> set cs)"

text \<open>No payload that the upstream can send makes \<^verbatim>\<open>_flatten_card_data\<close> raise.\<close>

definition flattens :: "env \<Rightarrow> bool" where
  "flattens env = (\<forall>c. served env c \<longrightarrow> (\<exists>fl. flatten_card_data (json_dumps env) c = Inr fl))"

text \<open>Every identifier that a payload of the upstream carries is a string.\<close>

definition string_ids :: "env \<Rightarrow> bool" where
  "string_ids env = (\<forall>c v. served env c \<longrightarrow> map_of c ''id'' = Some v \<longrightarrow> (\<exists>i. v = JStr i))"

text \<open>Every key of the accumulator is a string, kept as that string.\<close>

definition string_keyed :: "cards \<Rightarrow> bool" where
  "string_keyed db = (\<forall>k kept entry. (k, kept, entry) \<in> set db \<longrightarrow> (\<exists>i. k = KStr i \<and> kept = JStr i))"

text \<open>The record of the entity is in the accumulator and its labels, a list, hold the label.\<close>

definition labelled :: "cards \<Rightarrow> key \<Rightarrow> string \<Rightarrow> bool" where
  "labelled db k tag =
     (case map_of db k of
        None \<Rightarrow> False
      | Some (kept, entry) \<Rightarrow>
          (case map_of entry ''tags'' of
             Some (JList tags) \<Rightarrow> JStr tag \<in> set tags
           | _ \<Rightarrow> False))"


text \<open>
  The payloads of a label that come before its first payload without a usable identifier
  are all in the accumulator under that label already, and there is such a payload:
  merging the label again changes nothing and raises at the same payload.
\<close>

fun absorbed :: "string \<Rightarrow> dict list \<Rightarrow> cards \<Rightarrow> bool" where
  "absorbed tag [] db = False"
| "absorbed tag (payload # rest) db =
     (case card_key payload of
        Inl e \<Rightarrow> True
      | Inr k \<Rightarrow> labelled db k tag \<and> absorbed tag rest db)"

text \<open>
  Processing the label again has no effect: the label is processed, or its fetch raises,
  or its payloads are absorbed.
\<close>

definition quiet :: "env \<Rightarrow> string \<Rightarrow> engine \<Rightarrow> bool" where
  "quiet env tag s =
     (tag \<in> processed_tags s \<or>
      (case search_tag env tag 0 of
         None \<Rightarrow> False
       | Some (Inl e, n) \<Rightarrow> is_Exception e
       | Some (Inr cs, n) \<Rightarrow> absorbed tag cs (cards_db s)))"

text \<open>A new process: a fresh builder that loads what the state \<open>s\<close> left on the disk.\<close>

definition resume :: "engine \<Rightarrow> engine" where
  "resume s = new_builder (checkpoint_file s) (save_log s)"

text \<open>
  A deterministic upstream that sends the entity 1 with a malformed \<^verbatim>\<open>card_faces\<close> under
  the label \<^verbatim>\<open>flying_benefit\<close> and well-formed under the label \<^verbatim>\<open>removal\<close>, and
  answers 404 to anything else.
\<close>

definition bad_faces :: env where
  "bad_faces =
     \<lparr>json_dumps = (\<lambda>v. []),
      upstream = (\<lambda>n u.
        if u = search_url ''flying_benefit''
          then Response 200 (Some \<lparr>data = Some [[(''id'', JStr ''1''), (''card_faces'', JNum 5)]],
                                   has_more = False, next_page = None\<rparr>)
        else if u = search_url ''removal''
          then Response 200 (Some \<lparr>data = Some [ex_card ''1'' ''X''], has_more = False, next_page = None\<rparr>)
        else Response 404 None),
      retry_depth = 983, disk_write = (\<lambda>k. Write_ok),
      export_ok = True\<rparr>"

text \<open>The accumulators at the end of the runs below.\<close>

definition removal_only :: cards where
  "removal_only = [(KStr ''1'', JStr ''1'', [(''id'', JStr ''1''), (''name'', JStr ''X''), (''tags'', JList [JStr ''removal''])])]"

definition removal_and_flying :: cards where
  "removal_and_flying = [(KStr ''1'', JStr ''1'', [(''id'', JStr ''1''), (''name'', JStr ''X''),
                        (''tags'', JList [JStr ''removal'', JStr ''flying_benefit''])])]"

definition entity_2_twice :: cards where
  "entity_2_twice = [(KStr ''2'', JStr ''2'', [(''id'', JStr ''2''), (''name'', JStr ''Y''),
                        (''tags'', JList [JStr ''removal'', JStr ''ramp''])])]"

text \<open>
  A deterministic upstream whose pages all hold the entity with the integer identifier 1,
  and the accumulators of its runs.
\<close>

definition numeric_id :: env where
  "numeric_id =
     \<lparr>json_dumps = (\<lambda>v. []),
      upstream = (\<lambda>n u.
        Response 200 (Some \<lparr>data = Some [[(''id'', JNum 1), (''name'', JStr ''X'')]],
                             has_more = False, next_page = None\<rparr>)),
      retry_depth = 983, disk_write = (\<lambda>k. Write_ok),
      export_ok = True\<rparr>"

definition one_record :: cards where
  "one_record = [(KInt 1, JNum 1, [(''id'', JNum 1), (''name'', JStr ''X''),
                   (''tags'', JList [JStr ''flying_benefit'', JStr ''removal''])])]"

definition two_records :: cards where
  "two_records = [(KStr ''1'', JStr ''1'', [(''id'', JNum 1), (''name'', JStr ''X''),
                   (''tags'', JList [JStr ''flying_benefit''])]),
                  (KInt 1, JNum 1, [(''id'', JNum 1), (''name'', JStr ''X''),
                   (''tags'', JList [JStr ''removal''])])]"


section \<open>The merge step\<close>

lemma append_tag_again:
  "append_tag t e = Inr e' \<Longrightarrow> append_tag t e' = Inr e'"
  by (auto simp: append_tag_def update_conv' split: option.splits json.splits if_splits)

lemma append_tag_new:
  "append_tag t (AList.update ''tags'' (JList [JStr t]) fl) =
     Inr (AList.update ''tags'' (JList [JStr t]) fl)"
  by (simp add: append_tag_def update_conv')





text \<open>
  C4. Merging the same label and payload a second time changes nothing: when the first
  merge gives the accumulator \<open>db1\<close>, the second merge, on \<open>db1\<close>, gives \<open>db1\<close> again,
  with the same identifiers, the same fields and the same labels in the same order. The
  identifier is whatever \<^verbatim>\<open>card["id"]\<close> holds: a string, an integer, a boolean or
  \<^verbatim>\<open>None\<close>. A first merge that raises has not touched the accumulator.
\<close>

theorem merge_idempotent:
  "add_or_update_card d c t db = Inr db1 \<Longrightarrow> add_or_update_card d c t db1 = Inr db1"
  by (auto simp: add_or_update_card_def update_conv' append_tag_new append_tag_again
           split: sum.splits option.splits prod.splits)

theorem merge_idempotent_witness:
  "add_or_update_card (\<lambda>v. []) [(''id'', JNum 7), (''name'', JStr ''X'')] ''removal''
       [(KStr ''x'', JStr ''x'', [(''id'', JStr ''x''), (''tags'', JList [JStr ''ramp''])])]
     = Inr [(KStr ''x'', JStr ''x'', [(''id'', JStr ''x''), (''tags'', JList [JStr ''ramp''])]),
            (KInt 7, JNum 7, [(''id'', JNum 7), (''name'', JStr ''X''), (''tags'', JList [JStr ''removal''])])]
   \<and> add_or_update_card (\<lambda>v. []) [(''id'', JNum 7), (''name'', JStr ''X'')] ''removal''
       [(KStr ''x'', JStr ''x'', [(''id'', JStr ''x''), (''tags'', JList [JStr ''ramp''])]),
        (KInt 7, JNum 7, [(''id'', JNum 7), (''name'', JStr ''X''), (''tags'', JList [JStr ''removal''])])]
     = Inr [(KStr ''x'', JStr ''x'', [(''id'', JStr ''x''), (''tags'', JList [JStr ''ramp''])]),
            (KInt 7, JNum 7, [(''id'', JNum 7), (''name'', JStr ''X''), (''tags'', JList [JStr ''removal''])])]"
proof -
  have h: "add_or_update_card (\<lambda>v. []) [(''id'', JNum 7), (''name'', JStr ''X'')] ''removal''
       [(KStr ''x'', JStr ''x'', [(''id'', JStr ''x''), (''tags'', JList [JStr ''ramp''])])]
     = Inr [(KStr ''x'', JStr ''x'', [(''id'', JStr ''x''), (''tags'', JList [JStr ''ramp''])]),
            (KInt 7, JNum 7, [(''id'', JNum 7), (''name'', JStr ''X''), (''tags'', JList [JStr ''removal''])])]"
    by (simp add: add_or_update_card_def card_id_def flatten_card_data_def)
  show ?thesis using h merge_idempotent [OF h] by simp
qed



lemma append_tag_noop:
  "map_of entry ''tags'' = Some (JList tags) \<Longrightarrow> JStr t \<in> set tags \<Longrightarrow> append_tag t entry = Inr entry"
  by (simp add: append_tag_def)











section \<open>The fetch loop\<close>

lemma make_request_success:
  "is_success (upstream env n u) p \<Longrightarrow> make_request env u n = (Inr p, Suc n)"
  unfolding make_request_def by (subst retry_request.simps) (auto split: outcome.splits option.splits elim: is_success.elims)

lemma make_request_404:
  "is_404 (upstream env n u) \<Longrightarrow> make_request env u n = (Inl (HTTPError 404), Suc n)"
  unfolding make_request_def by (subst retry_request.simps) (auto split: outcome.splits elim: is_404.elims)

lemma make_request_status:
  "upstream env n u = Response st b \<Longrightarrow> st \<noteq> 429 \<Longrightarrow> 400 \<le> st \<Longrightarrow> st < 600 \<Longrightarrow>
     make_request env u n = (Inl (HTTPError st), Suc n)"
  unfolding make_request_def by (subst retry_request.simps) simp

lemma make_request_interrupted:
  "upstream env n u = Interrupted \<Longrightarrow> make_request env u n = (Inl KeyboardInterrupt, Suc n)"
  unfolding make_request_def by (subst retry_request.simps) simp

lemma search_loop_stop: "search_loop env None acc n = Some (Inr acc, n)"
  by (subst search_loop.simps) simp

lemma search_loop_page:
  "u \<noteq> [] \<Longrightarrow> make_request env u n = (Inr pg, n') \<Longrightarrow> data pg = Some cs \<Longrightarrow>
     search_loop env (Some u) acc n =
       search_loop env (if has_more pg then next_page pg else None) (acc @ cs) n'"
  by (subst search_loop.simps) simp

lemma search_loop_raise:
  "u \<noteq> [] \<Longrightarrow> make_request env u n = (Inl e, n') \<Longrightarrow> e \<noteq> HTTPError 404 \<Longrightarrow>
     search_loop env (Some u) acc n = Some (Inl e, n')"
  by (subst search_loop.simps) simp

lemma search_loop_paged:
  "u \<noteq> [] \<Longrightarrow> paged env n u pages \<Longrightarrow>
     search_loop env (Some u) acc n = Some (Inr (acc @ all_data pages), n + length pages)"
proof (induction env n u pages arbitrary: acc rule: paged.induct)
  case (1 env n u)
  then show ?case by simp
next
  case (2 env n u p)
  then show ?case
    by (subst search_loop.simps) (auto simp: make_request_success search_loop_stop)
next
  case (3 env n u p q ps)
  then obtain u' where u': "next_page p = Some u'" "u' \<noteq> []" "paged env (Suc n) u' (q # ps)"
    by (auto split: option.splits)
  from 3 obtain cs where cs: "data p = Some cs" by auto
  have mr: "make_request env u n = (Inr p, Suc n)"
    using 3(3) by (simp add: make_request_success)
  have hm: "has_more p" using 3(3) by simp
  have "search_loop env (Some u) acc n = search_loop env (Some u') (acc @ cs) (Suc n)"
    using 3(2) by (subst search_loop.simps) (simp add: mr cs hm u')
  also have "\<dots> = Some (Inr ((acc @ cs) @ all_data (q # ps)), Suc n + length (q # ps))"
    using "3.IH"[OF u'(1) u'(2) u'(3)] .
  finally show ?case by (simp add: cs)
qed

lemma search_loop_404:
  "u \<noteq> [] \<Longrightarrow> paged_then_404 env n u pages \<Longrightarrow>
     search_loop env (Some u) acc n = Some (Inr (acc @ all_data pages), Suc (n + length pages))"
proof (induction env n u pages arbitrary: acc rule: paged_then_404.induct)
  case (1 env n u)
  then show ?case
    by (subst search_loop.simps) (simp add: make_request_404)
next
  case (2 env n u p ps)
  then obtain u' where u': "next_page p = Some u'" "u' \<noteq> []" "paged_then_404 env (Suc n) u' ps"
    by (auto split: option.splits)
  from 2 obtain cs where cs: "data p = Some cs" by auto
  have mr: "make_request env u n = (Inr p, Suc n)"
    using 2(3) by (simp add: make_request_success)
  have hm: "has_more p" using 2(3) by simp
  have "search_loop env (Some u) acc n = search_loop env (Some u') (acc @ cs) (Suc n)"
    using 2(2) by (subst search_loop.simps) (simp add: mr cs hm u')
  also have "\<dots> = Some (Inr ((acc @ cs) @ all_data ps), Suc (Suc n + length ps))"
    using "2.IH"[OF u'(1) u'(2) u'(3)] .
  finally show ?case by (simp add: cs)
qed

lemma search_url_nonempty: "search_url tag \<noteq> []"
  by (simp add: search_url_def BASE_URL_def)

lemma search_tag_404:
  "is_404 (upstream env n (search_url tag)) \<Longrightarrow> search_tag env tag n = Some (Inr [], Suc n)"
  using search_loop_404[OF search_url_nonempty, of env n tag "[]" "[]"]
  by (simp add: search_tag_def)

lemma search_tag_one_page:
  "is_success (upstream env n (search_url tag)) p \<Longrightarrow> data p = Some cs \<Longrightarrow> \<not> has_more p \<Longrightarrow>
     search_tag env tag n = Some (Inr cs, Suc n)"
  using search_loop_paged[OF search_url_nonempty, of env n tag "[p]" "[]"]
  by (simp add: search_tag_def)

text \<open>
  C6. When the upstream answers the search for a label with a finite sequence of
  successful pages, each page before the last with \<^verbatim>\<open>has_more\<close> true and a
  continuation URL and the last with \<^verbatim>\<open>has_more\<close> false, \<^verbatim>\<open>_search_tag\<close> returns the
  \<^verbatim>\<open>data\<close> arrays of all the pages in order, and the request counter has advanced by
  the number of pages: no request follows the last page.
\<close>

theorem pagination_exhaustion:
  "paged env n (search_url tag) pages \<Longrightarrow>
     search_tag env tag n = Some (Inr (all_data pages), n + length pages)"
  using search_loop_paged[OF search_url_nonempty, of env n tag pages "[]"]
  by (simp add: search_tag_def)

theorem pagination_exhaustion_witness:
  "paged two_pages 0 (search_url ''removal'')
     [\<lparr>data = Some [ex_card ''2'' ''Y''], has_more = True, next_page = Some ''page2''\<rparr>,
      \<lparr>data = Some [ex_card ''3'' ''Z''], has_more = False, next_page = None\<rparr>]
   \<and> search_tag two_pages ''removal'' 0 = Some (Inr [ex_card ''2'' ''Y'', ex_card ''3'' ''Z''], 2)"
proof -
  have h: "paged two_pages 0 (search_url ''removal'')
     [\<lparr>data = Some [ex_card ''2'' ''Y''], has_more = True, next_page = Some ''page2''\<rparr>,
      \<lparr>data = Some [ex_card ''3'' ''Z''], has_more = False, next_page = None\<rparr>]"
    by (simp add: two_pages_def search_url_def BASE_URL_def)
  show ?thesis using h pagination_exhaustion [OF h] by simp
qed

section \<open>Processing one label\<close>

lemma hash_key_exn: "hash_key v = Inl e \<Longrightarrow> is_Exception e"
  by (cases v) auto

lemma card_key_exn: "card_key c = Inl e \<Longrightarrow> is_Exception e"
  by (auto simp: card_key_def card_id_def split: option.splits sum.splits dest: hash_key_exn)

lemma iterate_exn: "iterate v = Inl e \<Longrightarrow> is_Exception e"
  by (cases v) auto

lemma flatten_faces_exn: "flatten_faces i fs fl = Inl e \<Longrightarrow> is_Exception e"
  by (induction i fs fl rule: flatten_faces.induct) auto

lemma flatten_exn: "flatten_card_data d c = Inl e \<Longrightarrow> is_Exception e"
  by (auto simp: flatten_card_data_def split: option.splits sum.splits dest: iterate_exn flatten_faces_exn)

lemma append_tag_exn: "append_tag t r = Inl e \<Longrightarrow> is_Exception e"
  by (auto simp: append_tag_def split: option.splits json.splits if_splits)

lemma card_id_exn: "card_id c = Inl e \<Longrightarrow> is_Exception e"
  by (auto simp: card_id_def split: option.splits)

lemma add_exn: "add_or_update_card d c t db = Inl e \<Longrightarrow> is_Exception e"
  by (auto simp: add_or_update_card_def split: option.splits sum.splits prod.splits
      dest: card_id_exn hash_key_exn flatten_exn append_tag_exn)

lemma merge_cards_exn: "merge_cards d t cs db = (Some e, db') \<Longrightarrow> is_Exception e"
  by (induction d t cs db rule: merge_cards.induct) (auto split: sum.splits dest: card_key_exn add_exn)

lemma dump_and_load_empty [simp]: "dump_and_load [] = []"
  by (simp add: dump_and_load_def)

lemma handle_state: "handle e s = Some (r, s') \<Longrightarrow> s' = s"
  by (auto simp: handle_def split: if_splits)

lemma save_checkpoint_keeps:
  "save_checkpoint env s = (r, s') \<Longrightarrow>
     cards_db s' = cards_db s \<and> processed_tags s' = processed_tags s \<and> request_count s' = request_count s"
  by (auto simp: save_checkpoint_def Let_def split: write_result.splits)

lemma save_checkpoint_exn:
  "save_checkpoint env s = (Some e, s') \<Longrightarrow> e = OSError"
  by (auto simp: save_checkpoint_def Let_def split: write_result.splits)

lemma process_tag_raise:
  "tag \<notin> processed_tags s \<Longrightarrow> search_tag env tag (request_count s) = Some (Inl e, n) \<Longrightarrow>
     process_tag env tag s = handle e (s\<lparr>request_count := n\<rparr>)"
  by (simp add: process_tag_def)

lemma process_tag_merge_raise:
  "tag \<notin> processed_tags s \<Longrightarrow> search_tag env tag (request_count s) = Some (Inr cs, n) \<Longrightarrow>
   merge_cards (json_dumps env) tag cs (cards_db s) = (Some e, db) \<Longrightarrow>
     process_tag env tag s = handle e (s\<lparr>cards_db := db, request_count := n\<rparr>)"
  by (simp add: process_tag_def)

lemma process_tag_no_save:
  "tag \<notin> processed_tags s \<Longrightarrow> search_tag env tag (request_count s) = Some (Inr cs, n) \<Longrightarrow>
   merge_cards (json_dumps env) tag cs (cards_db s) = (None, db) \<Longrightarrow>
   card (insert tag (processed_tags s)) mod CHECKPOINT_INTERVAL \<noteq> 0 \<Longrightarrow>
     process_tag env tag s =
       Some (Inr (length cs),
         s\<lparr>cards_db := db, processed_tags := insert tag (processed_tags s), request_count := n\<rparr>)"
  by (simp add: process_tag_def Let_def)

lemma process_tag_save:
  "tag \<notin> processed_tags s \<Longrightarrow> search_tag env tag (request_count s) = Some (Inr cs, n) \<Longrightarrow>
   merge_cards (json_dumps env) tag cs (cards_db s) = (None, db) \<Longrightarrow>
   card (insert tag (processed_tags s)) mod CHECKPOINT_INTERVAL = 0 \<Longrightarrow>
     process_tag env tag s =
       (case save_checkpoint env
          (s\<lparr>cards_db := db, processed_tags := insert tag (processed_tags s), request_count := n\<rparr>) of
          (Some e, s2) \<Rightarrow> handle e s2
        | (None, s2) \<Rightarrow> Some (Inr (length cs), s2))"
  by (simp add: process_tag_def Let_def)

lemma process_tag_merged:
  assumes "tag \<notin> processed_tags s"
    and "search_tag env tag (request_count s) = Some (Inr cs, n)"
    and "merge_cards (json_dumps env) tag cs (cards_db s) = (None, db)"
  shows "\<exists>r s'. process_tag env tag s = Some (Inr r, s') \<and> cards_db s' = db \<and>
           processed_tags s' = insert tag (processed_tags s) \<and> request_count s' = n \<and>
           (r = length cs \<or> r = 0)"
proof -
  let ?s1 = "s\<lparr>cards_db := db, processed_tags := insert tag (processed_tags s), request_count := n\<rparr>"
  show ?thesis
  proof (cases "card (processed_tags ?s1) mod CHECKPOINT_INTERVAL = 0")
    case False
    then show ?thesis using assms by (simp add: process_tag_def Let_def)
  next
    case True
    obtain r s2 where sv: "save_checkpoint env ?s1 = (r, s2)" by (cases "save_checkpoint env ?s1")
    from save_checkpoint_keeps[OF sv] have k: "cards_db s2 = db" "processed_tags s2 = insert tag (processed_tags s)" "request_count s2 = n"
      by simp_all
    show ?thesis
    proof (cases r)
      case None
      then show ?thesis using assms True sv k by (simp add: process_tag_def Let_def)
    next
      case (Some e)
      with sv save_checkpoint_exn have "e = OSError" by blast
      then show ?thesis using assms True sv k Some by (simp add: process_tag_def Let_def handle_def)
    qed
  qed
qed

lemma new_builder_fresh: "new_builder Missing [] = fresh"
  by (simp add: new_builder_def load_checkpoint_def fresh_def)

section \<open>Labels that end with a 404\<close>

text \<open>
  C7. When the first search request of a label that is not yet processed is answered
  with 404, \<^verbatim>\<open>_process_tag\<close> returns 0 without raising, the accumulator is unchanged
  and the label is added to the processed set.
\<close>

theorem not_found_is_empty:
  assumes "tag \<notin> processed_tags s"
    and "is_404 (upstream env (request_count s) (search_url tag))"
  shows "\<exists>s'. process_tag env tag s = Some (Inr 0, s') \<and> cards_db s' = cards_db s \<and>
           processed_tags s' = insert tag (processed_tags s)"
proof -
  have "paged_then_404 env (request_count s) (search_url tag) []"
    using assms(2) by simp
  from search_loop_404[OF search_url_nonempty this, of "[]"]
  have st: "search_tag env tag (request_count s) = Some (Inr [], Suc (request_count s))"
    by (simp add: search_tag_def)
  have "merge_cards (json_dumps env) tag [] (cards_db s) = (None, cards_db s)" by simp
  from process_tag_merged[OF assms(1) st this] show ?thesis by auto
qed

theorem not_found_is_empty_witness:
  "''removal'' \<notin> processed_tags fresh \<and>
   is_404 (upstream all_404 (request_count fresh) (search_url ''removal'')) \<and>
   (\<exists>s'. process_tag all_404 ''removal'' fresh = Some (Inr 0, s') \<and> cards_db s' = cards_db fresh \<and>
           processed_tags s' = insert ''removal'' (processed_tags fresh))"
proof -
  have a: "''removal'' \<notin> processed_tags fresh" by (simp add: fresh_def)
  have b: "is_404 (upstream all_404 (request_count fresh) (search_url ''removal''))"
    by (simp add: all_404_def)
  show ?thesis using a b not_found_is_empty [OF a b] by simp
qed



section \<open>Labels that fail\<close>

text \<open>
  C8, as stated, fails on a label whose merge raises: the payloads before the one that
  raises have been merged already. Here the entity 2 gets the label \<^verbatim>\<open>removal\<close>
  before the payload without identifier raises \<^verbatim>\<open>KeyError\<close>, so a record that was
  in the accumulator before the label started has changed.
\<close>

theorem failed_label_counterexample:
  "process_tag one_card_then_no_id ''removal'' after_flying =
     Some (Inr 0, after_flying
       \<lparr>cards_db := [(KStr ''2'', JStr ''2'', [(''id'', JStr ''2''), (''name'', JStr ''Y''),
                              (''tags'', JList [JStr ''flying_benefit'', JStr ''removal''])])],
        request_count := 2\<rparr>)
   \<and> map_of (cards_db after_flying) (KStr ''2'')
       = Some (JStr ''2'', [(''id'', JStr ''2''), (''name'', JStr ''Y''), (''tags'', JList [JStr ''flying_benefit''])])"
proof -
  have mr: "make_request one_card_then_no_id (search_url ''removal'') 1 =
      (Inr \<lparr>data = Some [ex_card ''2'' ''Y'', [(''name'', JStr ''Z'')]],
                             has_more = False, next_page = None\<rparr>, 2)"
    unfolding make_request_def by (subst retry_request.simps) (simp add: one_card_then_no_id_def)
  have "search_tag one_card_then_no_id ''removal'' 1 = Some (Inr [ex_card ''2'' ''Y'', [(''name'', JStr ''Z'')]], 2)"
    unfolding search_tag_def
    by (subst search_loop_page[OF search_url_nonempty mr]) (simp_all add: search_loop_stop)
  then show ?thesis
    by (simp add: process_tag_def after_flying_def one_card_then_no_id_def ex_card_def card_key_def card_id_def
        add_or_update_card_def append_tag_def handle_def)
qed

text \<open>
  C8, amended. When the fetch of a label raises an exception that \<^verbatim>\<open>except Exception\<close>
  catches (an unsuccessful response other than 404 and 429 among them),
  \<^verbatim>\<open>_process_tag\<close> returns 0 with the accumulator and the processed set unchanged, and
  the run loop goes on with the next label. When the merge of a label raises, the
  processed set is unchanged and the run loop goes on with the next label, with the
  accumulator as the payloads before the failing one left it.
\<close>

theorem failed_label_is_skipped:
  assumes "tag \<notin> processed_tags s"
  shows "(search_tag env tag (request_count s) = Some (Inl e, n) \<and> is_Exception e \<longrightarrow>
            process_tag env tag s = Some (Inr 0, s\<lparr>request_count := n\<rparr>) \<and>
            run_tags env (tag # rest) s = run_tags env rest (s\<lparr>request_count := n\<rparr>))
       \<and> (search_tag env tag (request_count s) = Some (Inr cs, n) \<and>
            merge_cards (json_dumps env) tag cs (cards_db s) = (Some e', db) \<longrightarrow>
            process_tag env tag s = Some (Inr 0, s\<lparr>cards_db := db, request_count := n\<rparr>) \<and>
            run_tags env (tag # rest) s = run_tags env rest (s\<lparr>cards_db := db, request_count := n\<rparr>))"
  using assms merge_cards_exn[of "json_dumps env" tag cs "cards_db s" e' db]
  by (auto simp: process_tag_def handle_def)

theorem failed_label_is_skipped_witness:
  "process_tag server_error ''removal'' after_flying = Some (Inr 0, after_flying\<lparr>request_count := 2\<rparr>)
   \<and> run_tags server_error [''removal'', ''ramp''] after_flying
       = run_tags server_error [''ramp''] (after_flying\<lparr>request_count := 2\<rparr>)
   \<and> process_tag one_card_then_no_id ''removal'' after_flying =
       Some (Inr 0, after_flying
         \<lparr>cards_db := [(KStr ''2'', JStr ''2'', [(''id'', JStr ''2''), (''name'', JStr ''Y''),
                                (''tags'', JList [JStr ''flying_benefit'', JStr ''removal''])])],
          request_count := 2\<rparr>)"
proof -
  have a: "''removal'' \<notin> processed_tags after_flying" by (simp add: after_flying_def)
  have "make_request server_error (search_url ''removal'') 1 = (Inl (HTTPError 500), 2)"
    unfolding make_request_def by (subst retry_request.simps) (simp add: server_error_def)
  from search_loop_raise[OF search_url_nonempty this]
  have b: "search_tag server_error ''removal'' (request_count after_flying) = Some (Inl (HTTPError 500), 2)"
    by (simp add: search_tag_def after_flying_def)
  have mr: "make_request one_card_then_no_id (search_url ''removal'') 1 =
      (Inr \<lparr>data = Some [ex_card ''2'' ''Y'', [(''name'', JStr ''Z'')]],
                             has_more = False, next_page = None\<rparr>, 2)"
    unfolding make_request_def by (subst retry_request.simps) (simp add: one_card_then_no_id_def)
  have "search_tag one_card_then_no_id ''removal'' 1 = Some (Inr [ex_card ''2'' ''Y'', [(''name'', JStr ''Z'')]], 2)"
    unfolding search_tag_def
    by (subst search_loop_page[OF search_url_nonempty mr]) (simp_all add: search_loop_stop)
  then have c: "search_tag one_card_then_no_id ''removal'' (request_count after_flying)
      = Some (Inr [ex_card ''2'' ''Y'', [(''name'', JStr ''Z'')]], 2)"
    by (simp add: after_flying_def)
  have d: "merge_cards (json_dumps one_card_then_no_id) ''removal'' [ex_card ''2'' ''Y'', [(''name'', JStr ''Z'')]]
       (cards_db after_flying) = (Some (KeyError ''id''),
          [(KStr ''2'', JStr ''2'', [(''id'', JStr ''2''), (''name'', JStr ''Y''),
                                (''tags'', JList [JStr ''flying_benefit'', JStr ''removal''])])])"
    by (simp add: after_flying_def ex_card_def card_key_def card_id_def add_or_update_card_def append_tag_def)
  show ?thesis
    using failed_label_is_skipped [OF a, where env = server_error and e = "HTTPError 500"
          and n = 2 and rest = "[''ramp'']"] b
      failed_label_is_skipped [OF a, where env = one_card_then_no_id
          and cs = "[ex_card ''2'' ''Y'', [(''name'', JStr ''Z'')]]" and n = 2] c d
    by simp
qed

section \<open>Interruption and failed saves\<close>

lemma flatten_two_groups:
  "flatten_tags [(''A'', [''flying_benefit'']), (''B'', [''removal''])] = [''flying_benefit'', ''removal'']"
  by (simp add: flatten_tags_def)

text \<open>
  C1 fails on the code. The tag source holds \<^verbatim>\<open>flying_benefit\<close> and \<^verbatim>\<open>removal\<close>, there
  is no checkpoint file, the first label is merged in full, and the interrupt arrives
  during the request of the second label. \<^verbatim>\<open>build_database\<close> ends with the
  \<^verbatim>\<open>KeyboardInterrupt\<close>, the label and its entity are in the builder, nothing was ever
  saved, and \<^verbatim>\<open>main\<close> exits with status 0 while the checkpoint file is still missing.
\<close>

theorem interrupt_without_save:
  "build_database interrupted_second [''flying_benefit'', ''removal''] fresh =
     Some (Inl KeyboardInterrupt,
       \<lparr>cards_db = [(KStr ''1'', JStr ''1'', [(''id'', JStr ''1''), (''name'', JStr ''X''), (''tags'', JList [JStr ''flying_benefit''])])],
        processed_tags = {''flying_benefit''}, request_count = 2,
        checkpoint_file = Missing, save_log = []\<rparr>)
   \<and> main interrupted_second (Tags_file [(''A'', [''flying_benefit'']), (''B'', [''removal''])]) Missing []
       = Some (0, Missing)"
proof -
  let ?p = "\<lparr>data = Some [ex_card ''1'' ''X''], has_more = False, next_page = None\<rparr>"
  have "is_success (upstream interrupted_second 0 (search_url ''flying_benefit'')) ?p"
    by (simp add: interrupted_second_def)
  from search_loop_page[OF search_url_nonempty make_request_success[OF this], of "[ex_card ''1'' ''X'']" "[]"]
  have s1: "search_tag interrupted_second ''flying_benefit'' 0 = Some (Inr [ex_card ''1'' ''X''], Suc 0)"
    by (simp add: search_tag_def search_loop_stop)
  have "upstream interrupted_second (Suc 0) (search_url ''removal'') = Interrupted"
    by (simp add: interrupted_second_def search_url_def)
  from search_loop_raise[OF search_url_nonempty make_request_interrupted[OF this]]
  have s2: "search_tag interrupted_second ''removal'' (Suc 0) = Some (Inl KeyboardInterrupt, Suc (Suc 0))"
    by (simp add: search_tag_def)
  have p1: "process_tag interrupted_second ''flying_benefit'' fresh =
     Some (Inr 1, \<lparr>cards_db = [(KStr ''1'', JStr ''1'', [(''id'', JStr ''1''), (''name'', JStr ''X''), (''tags'', JList [JStr ''flying_benefit''])])],
        processed_tags = {''flying_benefit''}, request_count = Suc 0,
        checkpoint_file = Missing, save_log = []\<rparr>)"
    by (simp add: process_tag_def fresh_def s1 ex_card_def card_key_def card_id_def
        add_or_update_card_def flatten_card_data_def CHECKPOINT_INTERVAL_def)
  have p2: "process_tag interrupted_second ''removal''
      \<lparr>cards_db = [(KStr ''1'', JStr ''1'', [(''id'', JStr ''1''), (''name'', JStr ''X''), (''tags'', JList [JStr ''flying_benefit''])])],
        processed_tags = {''flying_benefit''}, request_count = Suc 0,
        checkpoint_file = Missing, save_log = []\<rparr> =
     Some (Inl KeyboardInterrupt, \<lparr>cards_db = [(KStr ''1'', JStr ''1'', [(''id'', JStr ''1''), (''name'', JStr ''X''), (''tags'', JList [JStr ''flying_benefit''])])],
        processed_tags = {''flying_benefit''}, request_count = 2,
        checkpoint_file = Missing, save_log = []\<rparr>)"
    by (simp add: process_tag_def s2 handle_def)
  have r: "run_tags interrupted_second [''flying_benefit'', ''removal''] fresh =
     Some (Inl KeyboardInterrupt, \<lparr>cards_db = [(KStr ''1'', JStr ''1'', [(''id'', JStr ''1''), (''name'', JStr ''X''), (''tags'', JList [JStr ''flying_benefit''])])],
        processed_tags = {''flying_benefit''}, request_count = 2,
        checkpoint_file = Missing, save_log = []\<rparr>)"
    using p1 p2 by (simp add: fresh_def)
  have nb: "new_builder Missing [] = fresh"
    by (simp add: new_builder_def load_checkpoint_def fresh_def)
  show ?thesis
    by (simp add: build_database_def main_def r flatten_two_groups nb del: run_tags.simps)
qed

lemma many_tags_card: "finite many_tags \<and> card many_tags = 499"
proof -
  have "inj_on (\<lambda>n. replicate n CHR ''x'') {1..499::nat}"
    by (rule inj_onI) (metis length_replicate)
  then show ?thesis by (simp add: many_tags_def card_image)
qed

lemma many_tags_only_x: "t \<in> many_tags \<Longrightarrow> set t \<subseteq> {CHR ''x''}"
  by (auto simp: many_tags_def)

lemma a_not_in: "''a'' \<notin> many_tags" and b_not_in: "''b'' \<notin> many_tags"
  using many_tags_only_x by fastforce+

lemma run_resumed_499:
  "run_tags write_fails_once [''a'', ''b''] resumed_499 =
     Some (Inr (),
       \<lparr>cards_db = [], processed_tags = insert ''b'' (insert ''a'' many_tags),
        request_count = Suc (Suc 0),
        checkpoint_file = Written \<lparr>saved_tags = Some many_tags, saved_cards = Some []\<rparr>,
        save_log = [(\<lparr>saved_tags = Some (insert ''a'' many_tags), saved_cards = Some []\<rparr>, False)]\<rparr>)"
proof -
  let ?e = write_fails_once
  let ?s1 = "\<lparr>cards_db = [], processed_tags = insert ''a'' many_tags, request_count = Suc 0,
      checkpoint_file = Written \<lparr>saved_tags = Some many_tags, saved_cards = Some []\<rparr>,
      save_log = [(\<lparr>saved_tags = Some (insert ''a'' many_tags), saved_cards = Some []\<rparr>, False)]\<rparr>"
  let ?s2 = "?s1\<lparr>processed_tags := insert ''b'' (insert ''a'' many_tags), request_count := Suc (Suc 0)\<rparr>"
  have nf: "\<And>n u. is_404 (upstream ?e n u)" by (simp add: write_fails_once_def)
  have c1: "card (insert ''a'' many_tags) = 500"
    using many_tags_card a_not_in by simp
  have c2: "card (insert ''b'' (insert ''a'' many_tags)) = 501"
    using many_tags_card a_not_in b_not_in by simp
  have sv: "save_checkpoint ?e
      (resumed_499\<lparr>cards_db := [], processed_tags := insert ''a'' (processed_tags resumed_499),
         request_count := Suc (request_count resumed_499)\<rparr>) = (Some OSError, ?s1)"
    by (simp add: save_checkpoint_def write_fails_once_def resumed_499_def)
  have p1: "process_tag ?e ''a'' resumed_499 = Some (Inr 0, ?s1)"
    using process_tag_save[where tag = "''a''" and s = resumed_499 and env = ?e and cs = "[]"
        and n = "Suc (request_count resumed_499)" and db = "[]"]
      search_tag_404[OF nf, where n = "request_count resumed_499" and tag = "''a''"] a_not_in c1 sv
    by (simp add: resumed_499_def CHECKPOINT_INTERVAL_def handle_def)
  have p2: "process_tag ?e ''b'' ?s1 = Some (Inr 0, ?s2)"
    using process_tag_no_save[where tag = "''b''" and s = ?s1 and env = ?e and cs = "[]"
        and n = "Suc (Suc 0)" and db = "[]"]
      search_tag_404[OF nf, where n = "Suc 0" and tag = "''b''"] a_not_in b_not_in c2
    by (simp add: CHECKPOINT_INTERVAL_def)
  show ?thesis
    using p1 p2 a_not_in b_not_in by (simp add: resumed_499_def)
qed

text \<open>
  C3 fails on the code. The builder resumes with 499 processed labels, so the label
  \<^verbatim>\<open>a\<close> is the 500th and triggers the periodic save, whose write fails. The handler of
  \<^verbatim>\<open>_process_tag\<close> catches the \<^verbatim>\<open>OSError\<close>: the run goes on to the label \<^verbatim>\<open>b\<close>,
  reaches the final save and the export, and \<^verbatim>\<open>main\<close> exits with status 0.
\<close>

theorem failed_periodic_save_is_swallowed:
  "build_database write_fails_once [''a'', ''b''] resumed_499 =
     Some (Inr (),
       \<lparr>cards_db = [], processed_tags = insert ''b'' (insert ''a'' many_tags), request_count = 2,
        checkpoint_file =
          Written \<lparr>saved_tags = Some (insert ''b'' (insert ''a'' many_tags)), saved_cards = Some []\<rparr>,
        save_log =
          [(\<lparr>saved_tags = Some (insert ''a'' many_tags), saved_cards = Some []\<rparr>, False),
           (\<lparr>saved_tags = Some (insert ''b'' (insert ''a'' many_tags)), saved_cards = Some []\<rparr>, True)]\<rparr>)
   \<and> main write_fails_once (Tags_file [(''A'', [''a'', ''b''])])
         (Written \<lparr>saved_tags = Some many_tags, saved_cards = Some []\<rparr>) []
       = Some (0, Written \<lparr>saved_tags = Some (insert ''b'' (insert ''a'' many_tags)), saved_cards = Some []\<rparr>)"
proof -
  have x: "export_ok write_fails_once" "disk_write write_fails_once (Suc 0) = Write_ok"
    by (simp_all add: write_fails_once_def)
  have nb: "new_builder (Written \<lparr>saved_tags = Some many_tags, saved_cards = Some []\<rparr>) [] = resumed_499"
    by (simp add: new_builder_def load_checkpoint_def resumed_499_def)
  have ft: "flatten_tags [(''A'', [''a'', ''b''])] = [''a'', ''b'']"
    by (simp add: flatten_tags_def)
  have b: "build_database write_fails_once [''a'', ''b''] resumed_499 =
     Some (Inr (),
       \<lparr>cards_db = [], processed_tags = insert ''b'' (insert ''a'' many_tags), request_count = 2,
        checkpoint_file =
          Written \<lparr>saved_tags = Some (insert ''b'' (insert ''a'' many_tags)), saved_cards = Some []\<rparr>,
        save_log =
          [(\<lparr>saved_tags = Some (insert ''a'' many_tags), saved_cards = Some []\<rparr>, False),
           (\<lparr>saved_tags = Some (insert ''b'' (insert ''a'' many_tags)), saved_cards = Some []\<rparr>, True)]\<rparr>)"
    using x by (simp add: build_database_def run_resumed_499 save_checkpoint_def Let_def del: run_tags.simps)
  show ?thesis
    using b by (simp add: main_def nb ft)
qed

text \<open>
  The final save is outside every handler: when its write fails, \<^verbatim>\<open>main\<close> exits with
  status 1, and a write that failed after \<^verbatim>\<open>open\<close> has destroyed the old checkpoint.
\<close>

lemma final_save_failure_is_fatal:
  assumes "run_tags env (flatten_tags groups) (new_builder file log) = Some (Inr u, s')"
    and "disk_write env (length (save_log s')) \<noteq> Write_ok"
  shows "main env (Tags_file groups) file log =
           Some (1, case disk_write env (length (save_log s')) of
                      Dump_failed \<Rightarrow> Unreadable
                    | _ \<Rightarrow> checkpoint_file s')"
  using assms
  by (simp add: main_def build_database_def save_checkpoint_def Let_def split: write_result.splits)

section \<open>Periodic saves\<close>

lemma evenly_spaced_snoc:
  "evenly_spaced (xs @ [a]) =
     (evenly_spaced xs \<and> (xs = [] \<or> (last xs \<subseteq> a \<and> card (a - last xs) = CHECKPOINT_INTERVAL)))"
  by (induction xs rule: evenly_spaced.induct) auto

lemma save_checkpoint_log:
  "\<exists>entry. save_log (snd (save_checkpoint env t)) = save_log t @ [entry] \<and>
      snapshot_tags entry = processed_tags t \<and>
      processed_tags (snd (save_checkpoint env t)) = processed_tags t"
proof -
  let ?ck = "\<lparr>saved_tags = Some (processed_tags t), saved_cards = Some (dump_and_load (cards_db t))\<rparr>"
  have "\<exists>b. save_log (snd (save_checkpoint env t)) = save_log t @ [(?ck, b)]"
    by (cases "disk_write env (length (save_log t))") (auto simp: save_checkpoint_def Let_def)
  moreover have "\<And>b. snapshot_tags (?ck, b) = processed_tags t"
    by (simp add: snapshot_tags_def)
  moreover have "processed_tags (snd (save_checkpoint env t)) = processed_tags t"
    by (simp add: save_checkpoint_def Let_def split: write_result.splits)
  ultimately show ?thesis by blast
qed

lemma process_tag_cases:
  assumes "process_tag env tag s = Some (r, s')"
  shows "(processed_tags s' = processed_tags s \<and> save_log s' = save_log s) \<or>
         (tag \<notin> processed_tags s \<and> processed_tags s' = insert tag (processed_tags s) \<and>
          (if card (insert tag (processed_tags s)) mod CHECKPOINT_INTERVAL = 0
           then \<exists>entry. save_log s' = save_log s @ [entry] \<and>
                  snapshot_tags entry = insert tag (processed_tags s)
           else save_log s' = save_log s))"
proof (cases "tag \<in> processed_tags s")
  case True
  with assms show ?thesis by (simp add: process_tag_def)
next
  case False
  from assms False obtain x n where st: "search_tag env tag (request_count s) = Some (x, n)"
    by (auto simp: process_tag_def split: option.splits)
  show ?thesis
  proof (cases x)
    case (Inl e)
    with assms False st have "handle e (s\<lparr>request_count := n\<rparr>) = Some (r, s')"
      by (simp add: process_tag_def)
    from handle_state[OF this] show ?thesis by simp
  next
    case (Inr cs)
    obtain oe db where mc: "merge_cards (json_dumps env) tag cs (cards_db s) = (oe, db)"
      by (cases "merge_cards (json_dumps env) tag cs (cards_db s)")
    show ?thesis
    proof (cases oe)
      case (Some e)
      with assms False st Inr mc have "handle e (s\<lparr>cards_db := db, request_count := n\<rparr>) = Some (r, s')"
        by (simp add: process_tag_def)
      from handle_state[OF this] show ?thesis by simp
    next
      case None
      let ?s1 = "s\<lparr>cards_db := db, processed_tags := insert tag (processed_tags s), request_count := n\<rparr>"
      show ?thesis
      proof (cases "card (insert tag (processed_tags s)) mod CHECKPOINT_INTERVAL = 0")
        case False
        with assms \<open>tag \<notin> processed_tags s\<close> st Inr mc None have "s' = ?s1"
          by (simp add: process_tag_def Let_def)
        with False \<open>tag \<notin> processed_tags s\<close> show ?thesis by simp
      next
        case True
        obtain r2 s2 where sv: "save_checkpoint env ?s1 = (r2, s2)"
          by (cases "save_checkpoint env ?s1")
        have "s' = s2"
        proof (cases r2)
          case None
          with assms \<open>tag \<notin> processed_tags s\<close> st Inr mc \<open>oe = None\<close> True sv show ?thesis
            by (simp add: process_tag_def Let_def)
        next
          case (Some e)
          with assms \<open>tag \<notin> processed_tags s\<close> st Inr mc \<open>oe = None\<close> True sv
          have "handle e s2 = Some (r, s')"
            by (simp add: process_tag_def Let_def)
          from handle_state[OF this] show ?thesis .
        qed
        with save_checkpoint_log[of env ?s1] sv True \<open>tag \<notin> processed_tags s\<close> show ?thesis
          by auto
      qed
    qed
  qed
qed

lemma on_schedule_same:
  "processed_tags s' = processed_tags s \<Longrightarrow> save_log s' = save_log s \<Longrightarrow>
     on_schedule s0 s' = on_schedule s0 s"
  by (simp add: on_schedule_def save_sizes_def saves_between_def)

lemma saves_between_grow:
  "saves_between s0 s \<Longrightarrow> save_log s' = save_log s \<Longrightarrow> processed_tags s \<subseteq> processed_tags s' \<Longrightarrow>
     saves_between s0 s'"
  unfolding saves_between_def list_all_iff by auto

lemma on_schedule_no_save:
  assumes inv: "on_schedule s0 s" and new: "tag \<notin> processed_tags s"
    and p: "processed_tags s' = insert tag (processed_tags s)"
    and l: "save_log s' = save_log s"
    and nd: "card (insert tag (processed_tags s)) mod CHECKPOINT_INTERVAL \<noteq> 0"
  shows "on_schedule s0 s'"
proof -
  let ?I = CHECKPOINT_INTERVAL
  let ?q = "card (processed_tags s0) div ?I"
  let ?k = "length (save_log s)"
  from inv have fin: "finite (processed_tags s)" and sub: "processed_tags s0 \<subseteq> processed_tags s"
    and sz: "save_sizes s = due_sizes (card (processed_tags s0)) ?k"
    and ev: "evenly_spaced (map snapshot_tags (save_log s))"
    and sb: "saves_between s0 s"
    and lo: "(?q + ?k) * ?I \<le> card (processed_tags s)"
    and hi: "card (processed_tags s) < (?q + Suc ?k) * ?I"
    by (simp_all add: on_schedule_def)
  have c: "card (processed_tags s') = Suc (card (processed_tags s))"
    using fin new p by simp
  have "\<not> ?I dvd Suc (card (processed_tags s))"
    using nd fin new by (simp add: dvd_eq_mod_eq_0)
  moreover have "?I dvd (?q + Suc ?k) * ?I" by simp
  ultimately have "Suc (card (processed_tags s)) \<noteq> (?q + Suc ?k) * ?I" by metis
  with hi have hi': "card (processed_tags s') < (?q + Suc ?k) * ?I" by (simp add: c)
  from lo have lo': "(?q + ?k) * ?I \<le> card (processed_tags s')" by (simp add: c)
  have sb': "saves_between s0 s'"
    using saves_between_grow[OF sb l] p by auto
  have sz': "save_sizes s' = due_sizes (card (processed_tags s0)) (length (save_log s'))"
    using sz l by (simp add: save_sizes_def)
  from fin p sub have "finite (processed_tags s')" "processed_tags s0 \<subseteq> processed_tags s'"
    by auto
  with sz' ev sb' lo' hi' l show ?thesis
    by (simp add: on_schedule_def)
qed

lemma interval_gap:
  fixes I :: nat
  assumes "0 < I" "I dvd a" "I dvd b" "a < b" "b \<le> a + I"
  shows "b - a = I"
proof -
  from assms obtain k m where k: "a = I * k" and m: "b = I * m" by (auto simp: dvd_def)
  from assms(4) have "k < m" using assms(1) by (simp add: k m)
  moreover from assms(5) have "I * m \<le> I * (k + 1)" by (simp add: k m)
  then have "0 < I \<longrightarrow> m \<le> k + 1" by (simp only: mult_le_cancel1)
  then have "m \<le> k + 1" using assms(1) by simp
  ultimately have "m = k + 1" by simp
  then show ?thesis by (simp add: k m)
qed

lemma due_sizes_Suc:
  "due_sizes n (Suc k) =
     due_sizes n k @ [(n div CHECKPOINT_INTERVAL + Suc k) * CHECKPOINT_INTERVAL]"
  by (simp add: due_sizes_def)

lemma due_sizes_last:
  "k \<noteq> 0 \<Longrightarrow> last (due_sizes n k) = (n div CHECKPOINT_INTERVAL + k) * CHECKPOINT_INTERVAL"
  by (cases k) (simp_all add: due_sizes_Suc)

lemma on_schedule_save:
  assumes inv: "on_schedule s0 s" and new: "tag \<notin> processed_tags s"
    and p: "processed_tags s' = insert tag (processed_tags s)"
    and l: "save_log s' = save_log s @ [entry]"
    and e: "snapshot_tags entry = insert tag (processed_tags s)"
    and d: "card (insert tag (processed_tags s)) mod CHECKPOINT_INTERVAL = 0"
  shows "on_schedule s0 s'"
proof -
  let ?I = CHECKPOINT_INTERVAL
  let ?q = "card (processed_tags s0) div ?I"
  let ?k = "length (save_log s)"
  have Ipos: "0 < ?I" by (simp add: CHECKPOINT_INTERVAL_def)
  from inv have fin: "finite (processed_tags s)" and sub: "processed_tags s0 \<subseteq> processed_tags s"
    and sz: "save_sizes s = due_sizes (card (processed_tags s0)) ?k"
    and ev: "evenly_spaced (map snapshot_tags (save_log s))"
    and sb: "saves_between s0 s"
    and lo: "(?q + ?k) * ?I \<le> card (processed_tags s)"
    and hi: "card (processed_tags s) < (?q + Suc ?k) * ?I"
    by (simp_all add: on_schedule_def)
  have c: "card (processed_tags s') = Suc (card (processed_tags s))"
    using fin new p by simp
  have f': "finite (processed_tags s')" and sub': "processed_tags s0 \<subseteq> processed_tags s'"
    using fin p sub by auto
  have dvP: "?I dvd card (processed_tags s')" using d p by (simp add: dvd_eq_mod_eq_0)
  have "card (processed_tags s') - (?q + ?k) * ?I = ?I"
  proof (rule interval_gap[OF Ipos _ dvP])
    show "?I dvd (?q + ?k) * ?I" by simp
    show "(?q + ?k) * ?I < card (processed_tags s')" using lo c by simp
    show "card (processed_tags s') \<le> (?q + ?k) * ?I + ?I" using hi c by simp
  qed
  with lo c have due: "card (processed_tags s') = (?q + Suc ?k) * ?I" by simp
  have sz': "save_sizes s' = due_sizes (card (processed_tags s0)) (length (save_log s'))"
    using sz due by (simp add: save_sizes_def l e p due_sizes_Suc)
  have ev': "evenly_spaced (map snapshot_tags (save_log s'))"
  proof (cases "save_log s = []")
    case True
    then show ?thesis by (simp add: l)
  next
    case False
    let ?T = "snapshot_tags (last (save_log s))"
    from sb False have T: "?T \<subseteq> processed_tags s"
      unfolding saves_between_def list_all_iff by simp
    have "card ?T = last (save_sizes s)"
      using False by (simp add: save_sizes_def last_map)
    also have "\<dots> = (?q + ?k) * ?I"
      using False by (simp add: sz due_sizes_last)
    finally have cT: "card ?T = (?q + ?k) * ?I" .
    have finT: "finite ?T" using T fin finite_subset by blast
    have subT: "?T \<subseteq> processed_tags s'" using T p by auto
    have "card (processed_tags s' - ?T) = card (processed_tags s') - card ?T"
      using subT finT by (simp add: card_Diff_subset)
    also have "\<dots> = ?I" using due cT by simp
    finally have "card (processed_tags s' - ?T) = ?I" .
    with subT ev False show ?thesis
      by (simp add: l e p evenly_spaced_snoc last_map)
  qed
  have sb': "saves_between s0 s'"
    using sb sub' p unfolding saves_between_def list_all_iff by (auto simp: l e)
  have lo': "(?q + length (save_log s')) * ?I \<le> card (processed_tags s')"
    using due by (simp add: l)
  have hi': "card (processed_tags s') < (?q + Suc (length (save_log s'))) * ?I"
    using due Ipos by (simp add: l)
  from f' sub' sz' ev' sb' lo' hi' show ?thesis
    unfolding on_schedule_def by blast
qed

lemma on_schedule_step:
  assumes inv: "on_schedule s0 s" and pt: "process_tag env tag s = Some (r, s')"
  shows "on_schedule s0 s'"
  using process_tag_cases[OF pt]
proof
  assume "processed_tags s' = processed_tags s \<and> save_log s' = save_log s"
  with inv on_schedule_same show ?thesis by blast
next
  assume a: "tag \<notin> processed_tags s \<and> processed_tags s' = insert tag (processed_tags s) \<and>
          (if card (insert tag (processed_tags s)) mod CHECKPOINT_INTERVAL = 0
           then \<exists>entry. save_log s' = save_log s @ [entry] \<and>
                  snapshot_tags entry = insert tag (processed_tags s)
           else save_log s' = save_log s)"
  show ?thesis
  proof (cases "card (insert tag (processed_tags s)) mod CHECKPOINT_INTERVAL = 0")
    case False
    from a False have "tag \<notin> processed_tags s" "processed_tags s' = insert tag (processed_tags s)"
      "save_log s' = save_log s" by simp_all
    from on_schedule_no_save[OF inv this False] show ?thesis .
  next
    case True
    with a obtain entry where en: "save_log s' = save_log s @ [entry]"
      "snapshot_tags entry = insert tag (processed_tags s)" by auto
    from a have "tag \<notin> processed_tags s" "processed_tags s' = insert tag (processed_tags s)"
      by simp_all
    from on_schedule_save[OF inv this en True] show ?thesis .
  qed
qed

lemma on_schedule_run:
  "on_schedule s0 s \<Longrightarrow> run_tags env tags s = Some (r, s') \<Longrightarrow> on_schedule s0 s'"
proof (induction env tags s rule: run_tags.induct)
  case (1 env s)
  then show ?case by simp
next
  case (2 env tag rest s)
  show ?case
  proof (cases "tag \<in> processed_tags s")
    case True
    with 2 show ?thesis by simp
  next
    case False
    with "2.prems"(2) obtain x s1 where p: "process_tag env tag s = Some (x, s1)"
      by (auto split: option.splits)
    from on_schedule_step[OF "2.prems"(1) p] have i: "on_schedule s0 s1" .
    show ?thesis
    proof (cases x)
      case (Inl e)
      with p "2.prems"(2) False i show ?thesis by simp
    next
      case (Inr v)
      with p "2.prems"(2) False have "run_tags env rest s1 = Some (r, s')" by simp
      from "2.IH"(2)[OF False p[unfolded Inr] refl refl i this] show ?thesis .
    qed
  qed
qed

lemma on_schedule_start:
  "finite (processed_tags s) \<Longrightarrow> save_log s = [] \<Longrightarrow> on_schedule s s"
  by (simp add: on_schedule_def save_sizes_def due_sizes_def saves_between_def
      CHECKPOINT_INTERVAL_def)

text \<open>
  C9, as stated, fails for a resumed run. The builder has loaded 499 processed labels;
  the first label it processes brings the processed set to 500 and triggers the periodic
  save, after one newly processed label and not after 500.
\<close>

theorem first_save_after_resume_counterexample:
  "run_tags all_404 [''a''] resumed_499 =
     Some (Inr (),
       \<lparr>cards_db = [], processed_tags = insert ''a'' many_tags, request_count = 1,
        checkpoint_file = Written \<lparr>saved_tags = Some (insert ''a'' many_tags), saved_cards = Some []\<rparr>,
        save_log = [(\<lparr>saved_tags = Some (insert ''a'' many_tags), saved_cards = Some []\<rparr>, True)]\<rparr>)
   \<and> card (insert ''a'' many_tags - processed_tags resumed_499) = 1"
proof -
  have nf: "is_404 (upstream all_404 (request_count resumed_499) (search_url ''a''))"
    by (simp add: all_404_def)
  have c1: "card (insert ''a'' many_tags) = 500"
    using many_tags_card a_not_in by simp
  have sv: "save_checkpoint all_404
      (resumed_499\<lparr>cards_db := [], processed_tags := insert ''a'' (processed_tags resumed_499),
         request_count := Suc (request_count resumed_499)\<rparr>) =
      (None, \<lparr>cards_db = [], processed_tags = insert ''a'' many_tags, request_count = Suc 0,
        checkpoint_file = Written \<lparr>saved_tags = Some (insert ''a'' many_tags), saved_cards = Some []\<rparr>,
        save_log = [(\<lparr>saved_tags = Some (insert ''a'' many_tags), saved_cards = Some []\<rparr>, True)]\<rparr>)"
    by (simp add: save_checkpoint_def all_404_def resumed_499_def Let_def)
  have p1: "process_tag all_404 ''a'' resumed_499 =
     Some (Inr 0,
       \<lparr>cards_db = [], processed_tags = insert ''a'' many_tags, request_count = Suc 0,
        checkpoint_file = Written \<lparr>saved_tags = Some (insert ''a'' many_tags), saved_cards = Some []\<rparr>,
        save_log = [(\<lparr>saved_tags = Some (insert ''a'' many_tags), saved_cards = Some []\<rparr>, True)]\<rparr>)"
    using process_tag_save[where tag = "''a''" and s = resumed_499 and env = all_404 and cs = "[]"
        and n = "Suc (request_count resumed_499)" and db = "[]"]
      search_tag_404[OF nf] a_not_in c1 sv
    by (simp add: resumed_499_def CHECKPOINT_INTERVAL_def)
  have "insert ''a'' many_tags - many_tags = {''a''}" using a_not_in by auto
  then show ?thesis
    using p1 a_not_in by (simp add: resumed_499_def)
qed

text \<open>
  C9, amended. A periodic save is triggered whenever the size of the processed set, the
  labels loaded from a checkpoint included, reaches a multiple of 500. In a run that
  starts with \<open>n\<close> processed labels the sizes at the saves are therefore the multiples of
  500 above \<open>n\<close>, one save for each and in order, so that two consecutive saves are
  exactly 500 newly processed labels apart, while the first save of a resumed run comes
  as soon as the total reaches a multiple of 500.
\<close>

theorem periodic_saves_on_multiples:
  assumes "finite (processed_tags s)" and "save_log s = []"
    and "run_tags env tags s = Some (r, s')"
  shows "save_sizes s' = due_sizes (card (processed_tags s)) (length (save_log s')) \<and>
         evenly_spaced (map snapshot_tags (save_log s')) \<and>
         saves_between s s' \<and>
         (card (processed_tags s) div CHECKPOINT_INTERVAL + length (save_log s'))
             * CHECKPOINT_INTERVAL \<le> card (processed_tags s') \<and>
         card (processed_tags s')
           < (card (processed_tags s) div CHECKPOINT_INTERVAL + Suc (length (save_log s')))
               * CHECKPOINT_INTERVAL"
  using on_schedule_run[OF on_schedule_start[OF assms(1,2)] assms(3)]
  by (simp add: on_schedule_def)

lemma run_all_404:
  "\<exists>s'. run_tags all_404 tags s = Some (Inr (), s') \<and>
      processed_tags s' = processed_tags s \<union> set tags"
proof (induction tags arbitrary: s)
  case Nil
  show ?case by simp
next
  case (Cons tag rest)
  show ?case
  proof (cases "tag \<in> processed_tags s")
    case True
    with Cons.IH[of s] show ?thesis by auto
  next
    case False
    have nf: "is_404 (upstream all_404 (request_count s) (search_url tag))"
      by (simp add: all_404_def)
    have mc: "merge_cards (json_dumps all_404) tag [] (cards_db s) = (None, cards_db s)"
      by simp
    from process_tag_merged[OF False search_tag_404[OF nf] mc]
    obtain r s1 where p: "process_tag all_404 tag s = Some (Inr r, s1)"
      and t: "processed_tags s1 = insert tag (processed_tags s)"
      by blast
    from Cons.IH[of s1] obtain s' where "run_tags all_404 rest s1 = Some (Inr (), s')"
      and "processed_tags s' = processed_tags s1 \<union> set rest"
      by blast
    with False p t show ?thesis by auto
  qed
qed

lemma more_tags_card:
  "finite (many_tags \<union> set (''a'' # more_tags)) \<and>
   card (many_tags \<union> set (''a'' # more_tags)) = 1000"
proof -
  have inj: "inj_on (\<lambda>n. replicate n CHR ''y'') {1..<501::nat}"
    by (rule inj_onI) (metis length_replicate)
  have sm: "set more_tags = (\<lambda>n. replicate n CHR ''y'') ` {1..<501}"
    by (simp add: more_tags_def)
  have c: "card (set more_tags) = 500"
    using inj by (simp add: sm card_image)
  have y: "\<And>t. t \<in> set more_tags \<Longrightarrow> t \<noteq> [] \<and> set t \<subseteq> {CHR ''y''}"
    by (auto simp: sm)
  have a: "''a'' \<notin> set more_tags"
    using y by fastforce
  have d: "many_tags \<inter> set more_tags = {}"
  proof (rule ccontr)
    assume "many_tags \<inter> set more_tags \<noteq> {}"
    then obtain t where "t \<in> many_tags" "t \<in> set more_tags" by blast
    with many_tags_only_x[of t] y[of t] show False
      by (cases t) auto
  qed
  have "card (many_tags \<union> set more_tags) = 999"
    using many_tags_card c d by (simp add: card_Un_disjoint)
  moreover have "''a'' \<notin> many_tags \<union> set more_tags"
    using a a_not_in by simp
  moreover have "finite (many_tags \<union> set more_tags)"
    using many_tags_card by simp
  ultimately have "card (insert ''a'' (many_tags \<union> set more_tags)) = 1000"
    by simp
  then show ?thesis using many_tags_card by simp
qed

theorem periodic_saves_on_multiples_witness:
  "\<exists>s'. run_tags all_404 (''a'' # more_tags) resumed_499 = Some (Inr (), s') \<and>
      card (processed_tags s' - processed_tags resumed_499) = 501 \<and>
      length (save_log s') = 2 \<and>
      save_sizes s' = [500, 1000] \<and>
      evenly_spaced (map snapshot_tags (save_log s'))"
proof -
  from run_all_404[of "''a'' # more_tags" resumed_499]
  obtain s' where run: "run_tags all_404 (''a'' # more_tags) resumed_499 = Some (Inr (), s')"
    and P: "processed_tags s' = many_tags \<union> set (''a'' # more_tags)"
    by (auto simp: resumed_499_def)
  have fin: "finite (processed_tags resumed_499)" and c0: "card (processed_tags resumed_499) = 499"
    using many_tags_card by (simp_all add: resumed_499_def)
  have nil: "save_log resumed_499 = []"
    by (simp add: resumed_499_def)
  have c1: "card (processed_tags s') = 1000"
    using more_tags_card by (simp add: P)
  have "card (processed_tags s' - processed_tags resumed_499)
      = card (processed_tags s') - card (processed_tags resumed_499)"
    using fin by (intro card_Diff_subset) (auto simp: P resumed_499_def)
  then have new: "card (processed_tags s' - processed_tags resumed_499) = 501"
    using c0 c1 by simp
  note th = periodic_saves_on_multiples[OF fin nil run]
  from th have lo: "length (save_log s') * 500 \<le> 1000"
    and hi: "1000 < Suc (length (save_log s')) * 500"
    by (simp_all add: c0 c1 CHECKPOINT_INTERVAL_def)
  from lo hi have k: "length (save_log s') = 2" by simp
  from th have "save_sizes s' = due_sizes 499 2" by (simp add: c0 k)
  also have "\<dots> = [500, 1000]"
    by (simp add: due_sizes_def CHECKPOINT_INTERVAL_def upt_rec)
  finally have sz: "save_sizes s' = [500, 1000]" .
  from th have ev: "evenly_spaced (map snapshot_tags (save_log s'))" by simp
  from run new k sz ev show ?thesis by blast
qed

end
